(* ===== verification/Prelude.thy ===== *)
theory Prelude
  imports Main "HOL-Library.Word" "HOL-Library.Multiset"
begin

text \<open>
  Shared vocabulary of the development: the C integer types, the fact collections that
  the component theories feed and use, and generic facts on lists, sign-monotone
  comparators and machine words.
\<close>

unbundle bit_operations_syntax

section \<open>C types\<close>

type_synonym u8 = "8 word"
type_synonym u16 = "16 word"
type_synonym u32 = "32 word"
type_synonym u64 = "64 word"

text \<open>
  A C comparison callback \<open>int (*compar)(const void *, const void *)\<close>: negative, zero or
  positive as the first argument is below, equal to or above the second.
\<close>

type_synonym 'a compar = "'a \<Rightarrow> 'a \<Rightarrow> int"

section \<open>Fact collections\<close>

named_theorems shape_simps "structural equations of a component's data types"
named_theorems inorder_simps "effect of a tree operation on its in-order sequence"
named_theorems step_defs "definitions of the handlers of a state machine"

section \<open>Lists\<close>

text \<open>
  Searching for a value in a sequence that the comparator sees in descending sign order:
  the elements the value is above come first, then the ones equal to it, then the ones it
  is below.
\<close>

definition cmp_mono :: "('a \<Rightarrow> int) \<Rightarrow> 'a list \<Rightarrow> bool" where
  "cmp_mono c xs \<longleftrightarrow> sorted_wrt (\<lambda>x y. c y \<le> c x) xs"

lemma cmp_mono_Nil [simp]: "cmp_mono c []"
  by (simp add: cmp_mono_def)

lemma cmp_mono_append [simp]:
  "cmp_mono c (xs @ ys) \<longleftrightarrow>
     cmp_mono c xs \<and> cmp_mono c ys \<and> (\<forall>x \<in> set xs. \<forall>y \<in> set ys. c y \<le> c x)"
  by (simp add: cmp_mono_def sorted_wrt_append)

lemma cmp_mono_Cons [simp]:
  "cmp_mono c (x # xs) \<longleftrightarrow> (\<forall>y \<in> set xs. c y \<le> c x) \<and> cmp_mono c xs"
  by (auto simp: cmp_mono_def)

text \<open>The last and the first element of a list, as a C function returning a pointer does.\<close>

definition last_opt :: "'a list \<Rightarrow> 'a option" where
  "last_opt xs = (if xs = [] then None else Some (last xs))"

definition first_opt :: "'a list \<Rightarrow> 'a option" where
  "first_opt xs = (case xs of [] \<Rightarrow> None | x # _ \<Rightarrow> Some x)"

lemma last_opt_simps [simp]:
  "last_opt [] = None"
  "last_opt [x] = Some x"
  "last_opt (xs @ [x]) = Some x"
  "last_opt (xs @ y # ys) = last_opt (y # ys)"
  by (simp_all add: last_opt_def)

lemma first_opt_simps [simp]:
  "first_opt [] = None"
  "first_opt (x # xs) = Some x"
  by (simp_all add: first_opt_def)

lemma last_opt_SomeD: "last_opt xs = Some x \<Longrightarrow> \<exists>ys. xs = ys @ [x]"
  by (metis append_butlast_last_id last_opt_def option.distinct(1) option.inject)

lemma last_opt_None [simp]: "last_opt xs = None \<longleftrightarrow> xs = []"
  by (simp add: last_opt_def)

lemma first_opt_SomeD: "first_opt xs = Some x \<Longrightarrow> \<exists>ys. xs = x # ys"
  by (cases xs) auto

lemma first_opt_None [simp]: "first_opt xs = None \<longleftrightarrow> xs = []"
  by (cases xs) auto


text \<open>In a list of distinct elements the position of an element determines what surrounds it.\<close>

lemma distinct_split_unique:
  "distinct xs \<Longrightarrow> xs = as @ d # bs \<Longrightarrow> xs = as' @ d # bs' \<Longrightarrow> as' = as \<and> bs' = bs"
  using append_Cons_eq_iff [of d as bs as' bs'] by auto


section \<open>Words\<close>

lemma unat_add_no_wrap: "(x :: 'a::len word) \<le> x + y \<Longrightarrow> unat (x + y) = unat x + unat y"
  by (rule unat_plus_simple [THEN iffD1])

end
