(* ===== verification/Ordered.thy ===== *)
theory Ordered
  imports Prelude
begin

text \<open>
  The interface between the AVL tree and the code that keeps its data in one: a tree is seen
  as the sequence of its elements, a failed search yields a slot in that sequence, and
  insertion, removal and in-place stores act at slots and elements.

  \<open>compar_order\<close> is what \<open>avl_create\<close> demands of a comparison function, \<open>search_tree\<close> what
  the tree promises, and \<open>ordered_tree\<close> joins the two: its lemmas are the facts clients use.
\<close>

section \<open>Comparison functions\<close>

locale compar_order =
  fixes compar :: "'a compar"
  assumes compar_flip: "compar x y < 0 \<longleftrightarrow> compar y x > 0"
    and compar_less_trans: "compar x y < 0 \<Longrightarrow> compar y z < 0 \<Longrightarrow> compar x z < 0"
    and compar_eq_less: "compar x y = 0 \<Longrightarrow> compar y z < 0 \<Longrightarrow> compar x z < 0"
    and compar_range: "compar x y \<in> {-1, 0, 1}"
begin

definition ordered :: "'a list \<Rightarrow> bool" where
  "ordered xs \<longleftrightarrow> sorted_wrt (\<lambda>x y. compar x y < 0) xs"

lemma ordered_append [simp]:
  "ordered (xs @ ys) \<longleftrightarrow> ordered xs \<and> ordered ys \<and> (\<forall>x \<in> set xs. \<forall>y \<in> set ys. compar x y < 0)"
  by (simp add: ordered_def sorted_wrt_append)

lemma ordered_simps [simp]:
  "ordered []"
  "ordered (x # xs) \<longleftrightarrow> (\<forall>y \<in> set xs. compar x y < 0) \<and> ordered xs"
  by (simp_all add: ordered_def)

lemma compar_self [simp]: "compar x x = 0"
  using compar_flip [of x x] by linarith

lemma ordered_distinct: "ordered xs \<Longrightarrow> distinct xs"
  by (induction xs) auto

text \<open>Any value sees an ordered sequence in descending sign order.\<close>

lemma compar_mono: "compar x y < 0 \<Longrightarrow> compar v y \<le> compar v x"
proof -
  assume less: "compar x y < 0"
  consider "compar v x < 0" | "compar v x = 0" | "compar v x = 1"
    using compar_range [of v x] by auto
  then show ?thesis
  proof cases
    case 1
    then have "compar v y < 0" using less by (rule compar_less_trans)
    with compar_range [of v y] compar_range [of v x] 1 show ?thesis by auto
  next
    case 2
    then have "compar v y < 0" using less by (rule compar_eq_less)
    with 2 show ?thesis by simp
  next
    case 3
    with compar_range [of v y] show ?thesis by auto
  qed
qed

lemma ordered_cmp_mono: "ordered xs \<Longrightarrow> cmp_mono (compar v) xs"
  by (induction xs) (auto intro: compar_mono)

end

section \<open>Trees as sequences\<close>

locale search_tree =
  fixes elems :: "'t \<Rightarrow> 'a list"
    and inv :: "'t \<Rightarrow> bool"
    and lookup :: "('a \<Rightarrow> int) \<Rightarrow> 't \<Rightarrow> 'a + 'w"
    and slot :: "'t \<Rightarrow> 'w \<Rightarrow> bool"
    and wbefore wafter :: "'w \<Rightarrow> 'a list"
    and insert_at :: "'t \<Rightarrow> 'a \<Rightarrow> 'w \<Rightarrow> 't"
    and remove :: "'t \<Rightarrow> 'a \<Rightarrow> 't"
    and store :: "'t \<Rightarrow> 'a \<Rightarrow> 'a \<Rightarrow> 't"
  assumes lookup_Inl: "lookup c t = Inl x \<Longrightarrow> x \<in> set (elems t) \<and> c x = 0"
    and lookup_complete: "cmp_mono c (elems t) \<Longrightarrow> y \<in> set (elems t) \<Longrightarrow> c y = 0 \<Longrightarrow> \<exists>x. lookup c t = Inl x"
    and lookup_slot: "lookup c t = Inr w \<Longrightarrow> slot t w"
    and lookup_where: "cmp_mono c (elems t) \<Longrightarrow> lookup c t = Inr w \<Longrightarrow>
      (\<forall>y \<in> set (wbefore w). c y > 0) \<and> (\<forall>y \<in> set (wafter w). c y < 0)"
    and slot_elems: "slot t w \<Longrightarrow> elems t = wbefore w @ wafter w"
    and insert_inv: "inv t \<Longrightarrow> slot t w \<Longrightarrow> inv (insert_at t x w)"
    and insert_elems: "inv t \<Longrightarrow> slot t w \<Longrightarrow> elems (insert_at t x w) = wbefore w @ x # wafter w"
    and remove_inv: "inv t \<Longrightarrow> distinct (elems t) \<Longrightarrow> d \<in> set (elems t) \<Longrightarrow> inv (remove t d)"
    and remove_elems: "inv t \<Longrightarrow> distinct (elems t) \<Longrightarrow> elems t = xs @ d # ys \<Longrightarrow> elems (remove t d) = xs @ ys"
    and store_inv: "inv t \<Longrightarrow> distinct (elems t) \<Longrightarrow> d \<in> set (elems t) \<Longrightarrow> inv (store t d e)"
    and store_elems: "distinct (elems t) \<Longrightarrow> elems t = xs @ d # ys \<Longrightarrow> elems (store t d e) = xs @ e # ys"
begin

lemma remove_set:
  assumes "inv t" and "distinct (elems t)" and "d \<in> set (elems t)"
  shows "set (elems (remove t d)) = set (elems t) - {d}" and "distinct (elems (remove t d))"
proof -
  obtain xs ys where e: "elems t = xs @ d # ys" using assms(3) by (meson split_list)
  with assms(1,2) have "elems (remove t d) = xs @ ys" by (rule remove_elems)
  with e assms(2) show "set (elems (remove t d)) = set (elems t) - {d}"
    and "distinct (elems (remove t d))" by auto
qed

lemma lookup_Inr_none:
  "cmp_mono c (elems t) \<Longrightarrow> lookup c t = Inr w \<Longrightarrow> y \<in> set (elems t) \<Longrightarrow> c y \<noteq> 0"
  using lookup_complete by fastforce

end

section \<open>Ordered trees\<close>

locale ordered_tree =
  search_tree elems inv lookup slot wbefore wafter insert_at remove store + compar_order compar
  for elems :: "'t \<Rightarrow> 'a list" and inv :: "'t \<Rightarrow> bool"
    and lookup :: "('a \<Rightarrow> int) \<Rightarrow> 't \<Rightarrow> 'a + 'w" and slot :: "'t \<Rightarrow> 'w \<Rightarrow> bool"
    and wbefore wafter :: "'w \<Rightarrow> 'a list" and insert_at :: "'t \<Rightarrow> 'a \<Rightarrow> 'w \<Rightarrow> 't"
    and remove :: "'t \<Rightarrow> 'a \<Rightarrow> 't" and store :: "'t \<Rightarrow> 'a \<Rightarrow> 'a \<Rightarrow> 't"
    and compar :: "'a compar"
begin

text \<open>A search of an ordered tree fails exactly for the values equal to no element.\<close>

lemma lookup_ordered:
  assumes "ordered (elems t)"
  shows "(\<exists>x. lookup (compar v) t = Inl x) \<longleftrightarrow> (\<exists>x \<in> set (elems t). compar v x = 0)"
  using lookup_Inl lookup_complete [OF ordered_cmp_mono [OF assms]] by blast

text \<open>Inserting at the slot a failed search ends at keeps the order.\<close>

lemma insert_ordered:
  assumes "ordered (elems t)" and "inv t" and miss: "lookup (compar v) t = Inr w"
  shows "ordered (elems (insert_at t v w))"
    and "set (elems (insert_at t v w)) = insert v (set (elems t))"
    and "inv (insert_at t v w)"
proof -
  have s: "slot t w" using miss by (rule lookup_slot)
  have e: "elems t = wbefore w @ wafter w" using s by (rule slot_elems)
  have n: "elems (insert_at t v w) = wbefore w @ v # wafter w"
    using assms(2) s by (rule insert_elems)
  show "ordered (elems (insert_at t v w))"
    using lookup_where [OF ordered_cmp_mono [OF assms(1)] miss] assms(1) e n
    by (auto simp: compar_flip)
  show "set (elems (insert_at t v w)) = insert v (set (elems t))" using e n by auto
  show "inv (insert_at t v w)" using assms(2) s by (rule insert_inv)
qed

lemma remove_ordered:
  assumes "ordered (elems t)" and "inv t" and "d \<in> set (elems t)"
  shows "ordered (elems (remove t d))"
proof -
  obtain xs ys where e: "elems t = xs @ d # ys" using assms(3) by (meson split_list)
  then have "elems (remove t d) = xs @ ys"
    using assms(2) ordered_distinct [OF assms(1)] by (intro remove_elems)
  with e assms(1) show ?thesis by simp
qed

end

end
