(* ===== verification/Avl.thy ===== *)
theory Avl
  imports Ordered
begin

text \<open>
  The generic AVL tree of \<^verbatim>\<open>src/zfs/module/avl/avl.c\<close>.

  A C node carries two child pointers, its balance, and, packed into the same word, its
  parent pointer and its index in the parent's child array. The tree is modelled as a
  datatype without parent pointers; a pointer to a node is a \<^emph>\<open>cursor\<close>, the node together
  with the frames between it and the root, so that following \<open>AVL_XPARENT\<close> and reading
  \<open>AVL_XCHILD\<close> is taking the first frame. An \<open>avl_index_t\<close> (a parent pointer with a child
  bit) is the list of frames alone: the free slot at its end. The loops of the C code that
  climb to the root are recursions over the frames.

  A data pointer handed to an operation (\<open>AVL_DATA2NODE\<close>) is the element stored in the
  tree; distinct nodes hold distinct elements wherever the code relies on node identity.
\<close>

section \<open>Nodes, frames and cursors\<close>

text \<open>A child index: 0 is the left child, 1 the right child.\<close>

datatype avl_ix = C0 | C1

fun avl_other :: "avl_ix \<Rightarrow> avl_ix" where
  "avl_other C0 = C1"
| "avl_other C1 = C0"

datatype 'a avl_node = Null | Node int "'a avl_node" 'a "'a avl_node"

fun avl_child :: "'a avl_node \<Rightarrow> avl_ix \<Rightarrow> 'a avl_node" where
  "avl_child Null c = Null"
| "avl_child (Node b l x r) C0 = l"
| "avl_child (Node b l x r) C1 = r"

fun avl_setchild :: "'a avl_node \<Rightarrow> avl_ix \<Rightarrow> 'a avl_node \<Rightarrow> 'a avl_node" where
  "avl_setchild Null c n = Null"
| "avl_setchild (Node b l x r) C0 n = Node b n x r"
| "avl_setchild (Node b l x r) C1 n = Node b l x n"

fun avl_xbalance :: "'a avl_node \<Rightarrow> int" where
  "avl_xbalance Null = 0"
| "avl_xbalance (Node b l x r) = b"

fun avl_setbalance :: "'a avl_node \<Rightarrow> int \<Rightarrow> 'a avl_node" where
  "avl_setbalance Null b' = Null"
| "avl_setbalance (Node b l x r) b' = Node b' l x r"

fun avl_node2data :: "'a avl_node \<Rightarrow> 'a option" where
  "avl_node2data Null = None"
| "avl_node2data (Node b l x r) = Some x"

text \<open>
  A frame: which child of the parent the hole is, the parent's balance, its data and its
  other child.
\<close>

type_synonym 'a avl_frame = "avl_ix \<times> int \<times> 'a \<times> 'a avl_node"
type_synonym 'a avl_index = "'a avl_frame list"
type_synonym 'a avl_cursor = "'a avl_node \<times> 'a avl_index"

text \<open>The parent a frame stands for, with \<open>n\<close> in the hole.\<close>

fun avl_plug :: "'a avl_node \<Rightarrow> 'a avl_frame \<Rightarrow> 'a avl_node" where
  "avl_plug n (C0, b, x, s) = Node b n x s"
| "avl_plug n (C1, b, x, s) = Node b s x n"

fun avl_zip :: "'a avl_node \<Rightarrow> 'a avl_index \<Rightarrow> 'a avl_node" where
  "avl_zip n [] = n"
| "avl_zip n (f # p) = avl_zip (avl_plug n f) p"

text \<open>Descending from a node to one of its children.\<close>

fun avl_frame_of :: "'a avl_node \<Rightarrow> avl_ix \<Rightarrow> 'a avl_index" where
  "avl_frame_of Null c = []"
| "avl_frame_of (Node b l x r) C0 = [(C0, b, x, r)]"
| "avl_frame_of (Node b l x r) C1 = [(C1, b, x, l)]"

record 'a avl_tree =
  avl_root :: "'a avl_node"
  avl_numnodes :: nat

section \<open>Operations\<close>

fun avl_child2balance :: "avl_ix \<Rightarrow> int" where
  "avl_child2balance C0 = -1"
| "avl_child2balance C1 = 1"

text \<open>\<open>avl_balance2child[1 + d]\<close> for \<open>d\<close> in \<open>-1, 0, 1\<close>.\<close>

definition avl_balance2child :: "int \<Rightarrow> avl_ix" where
  "avl_balance2child d = (if d \<le> 0 then C0 else C1)"

definition avl_create :: "'a avl_tree" where
  "avl_create = \<lparr>avl_root = Null, avl_numnodes = 0\<rparr>"

definition avl_is_empty :: "'a avl_tree \<Rightarrow> bool" where
  "avl_is_empty t \<longleftrightarrow> avl_numnodes t = 0"

definition avl_swap :: "'a avl_tree \<Rightarrow> 'a avl_tree \<Rightarrow> 'a avl_tree \<times> 'a avl_tree" where
  "avl_swap t1 t2 =
     (let temp_node = avl_root t1; temp_numnodes = avl_numnodes t1;
          t1' = t1\<lparr>avl_root := avl_root t2, avl_numnodes := avl_numnodes t2\<rparr>;
          t2' = t2\<lparr>avl_root := temp_node, avl_numnodes := temp_numnodes\<rparr>
      in (t1', t2'))"

text \<open>
  \<open>for (; node->avl_child[c] != NULL; node = node->avl_child[c])\<close> from a non-null node.
\<close>

fun avl_descend :: "avl_ix \<Rightarrow> 'a avl_node \<Rightarrow> 'a avl_index \<Rightarrow> 'a avl_cursor" where
  "avl_descend c Null p = (Null, p)"
| "avl_descend C0 (Node b l x r) p =
     (if l = Null then (Node b l x r, p) else avl_descend C0 l ((C0, b, x, r) # p))"
| "avl_descend C1 (Node b l x r) p =
     (if r = Null then (Node b l x r, p) else avl_descend C1 r ((C1, b, x, l) # p))"

text \<open>
  The climb of \<open>avl_walk\<close>: through parents until one was reached from its \<open>right\<close> child.
\<close>

fun avl_walk_up :: "avl_ix \<Rightarrow> 'a avl_node \<Rightarrow> 'a avl_index \<Rightarrow> 'a avl_cursor option" where
  "avl_walk_up right n [] = None"
| "avl_walk_up right n ((was_child, b, x, s) # p) =
     (let n' = avl_plug n (was_child, b, x, s)
      in if was_child = right then Some (n', p) else avl_walk_up right n' p)"

definition avl_walk :: "'a avl_cursor \<Rightarrow> avl_ix \<Rightarrow> 'a avl_cursor option" where
  "avl_walk cur left =
     (case cur of (node, p) \<Rightarrow>
        if node = Null then None
        else if avl_child node left \<noteq> Null
        then Some (avl_descend (avl_other left) (avl_child node left) (avl_frame_of node left @ p))
        else avl_walk_up (avl_other left) node p)"

definition avl_first :: "'a avl_tree \<Rightarrow> 'a avl_cursor option" where
  "avl_first t = (if avl_root t = Null then None else Some (avl_descend C0 (avl_root t) []))"

definition avl_last :: "'a avl_tree \<Rightarrow> 'a avl_cursor option" where
  "avl_last t = (if avl_root t = Null then None else Some (avl_descend C1 (avl_root t) []))"

text \<open>\<open>AVL_BEFORE\<close> is 0 and \<open>AVL_AFTER\<close> is 1.\<close>

definition avl_nearest :: "'a avl_index \<Rightarrow> avl_ix \<Rightarrow> 'a avl_cursor option" where
  "avl_nearest whr direction =
     (case whr of [] \<Rightarrow> None
      | (child, b, x, s) # p \<Rightarrow>
          let node = avl_plug Null (child, b, x, s)
          in if child \<noteq> direction then Some (node, p) else avl_walk (node, p) direction)"

datatype 'a avl_found = Found "'a avl_cursor" | Missing "'a avl_index"

fun avl_find_from :: "('a \<Rightarrow> int) \<Rightarrow> 'a avl_node \<Rightarrow> 'a avl_index \<Rightarrow> 'a avl_found" where
  "avl_find_from c Null p = Missing p"
| "avl_find_from c (Node b l x r) p =
     (let diff = c x
      in if diff = 0 then Found (Node b l x r, p)
         else (case avl_balance2child diff of
                 C0 \<Rightarrow> avl_find_from c l ((C0, b, x, r) # p)
               | C1 \<Rightarrow> avl_find_from c r ((C1, b, x, l) # p)))"

text \<open>
  \<open>avl_find\<close> returns the data pointer of the node it found, or sets \<open>*where\<close> to the slot
  where the search left the tree.
\<close>

definition avl_lookup :: "('a \<Rightarrow> int) \<Rightarrow> 'a avl_tree \<Rightarrow> 'a + 'a avl_index" where
  "avl_lookup c t =
     (case avl_find_from c (avl_root t) [] of
        Found (Node b l x r, p) \<Rightarrow> Inl x
      | Found (Null, p) \<Rightarrow> Inr p
      | Missing p \<Rightarrow> Inr p)"

definition avl_find :: "'a compar \<Rightarrow> 'a avl_tree \<Rightarrow> 'a \<Rightarrow> 'a + 'a avl_index" where
  "avl_find compar t value = avl_lookup (compar value) t"

text \<open>
  \<open>avl_rotation\<close>: the new subtree in the node's place and whether it is one shorter. The
  stores through \<open>parent->avl_child[which_child]\<close> and \<open>tree->avl_root\<close> are the
  reinsertion of the returned subtree into the slot it came from.
\<close>

definition avl_rotation :: "'a avl_node \<Rightarrow> int \<Rightarrow> 'a avl_node \<times> bool" where
  "avl_rotation node balance =
     (let left = (if balance < 0 then C0 else C1);
          right = avl_other left;
          left_heavy = balance div 2;
          right_heavy = - left_heavy;
          child = avl_child node left;
          child_bal = avl_xbalance child
      in if child_bal \<noteq> right_heavy then
           (let child_bal = child_bal + right_heavy;
                cright = avl_child child right;
                node = avl_setbalance (avl_setchild node left cright) (- child_bal);
                child = avl_setbalance (avl_setchild child right node) child_bal
            in (child, child_bal = 0))
         else
           (let gchild = avl_child child right;
                gleft = avl_child gchild left;
                gright = avl_child gchild right;
                balance = avl_xbalance gchild;
                node = avl_setchild node left gright;
                child = avl_setchild child right gleft;
                child = avl_setbalance child (if balance = right_heavy then left_heavy else 0);
                node = avl_setbalance node (if balance = left_heavy then right_heavy else 0);
                gchild = avl_setchild (avl_setchild gchild left child) right node
            in (avl_setbalance gchild 0, True)))"

text \<open>The loop of \<open>avl_insert\<close>: \<open>n\<close> is the subtree that has grown by one level.\<close>

fun avl_insert_up :: "'a avl_node \<Rightarrow> 'a avl_index \<Rightarrow> 'a avl_node" where
  "avl_insert_up n [] = n"
| "avl_insert_up n ((which_child, old_balance, x, s) # p) =
     (let new_balance = old_balance + avl_child2balance which_child
      in if new_balance = 0 then avl_zip (avl_plug n (which_child, 0, x, s)) p
         else if old_balance \<noteq> 0
         then avl_zip (fst (avl_rotation (avl_plug n (which_child, old_balance, x, s)) new_balance)) p
         else avl_insert_up (avl_plug n (which_child, new_balance, x, s)) p)"

definition avl_insert :: "'a avl_tree \<Rightarrow> 'a \<Rightarrow> 'a avl_index \<Rightarrow> 'a avl_tree" where
  "avl_insert t new_data whr =
     t\<lparr>avl_numnodes := avl_numnodes t + 1,
       avl_root := avl_insert_up (Node 0 Null new_data Null) whr\<rparr>"

text \<open>\<open>AVL_DATA2NODE\<close>: the cursor of the node that holds an element.\<close>

fun avl_data2node_from :: "'a \<Rightarrow> 'a avl_node \<Rightarrow> 'a avl_index \<Rightarrow> 'a avl_cursor option" where
  "avl_data2node_from d Null p = None"
| "avl_data2node_from d (Node b l x r) p =
     (if x = d then Some (Node b l x r, p)
      else case avl_data2node_from d l ((C0, b, x, r) # p) of
             Some cur \<Rightarrow> Some cur
           | None \<Rightarrow> avl_data2node_from d r ((C1, b, x, l) # p))"

definition avl_data2node :: "'a avl_tree \<Rightarrow> 'a \<Rightarrow> 'a avl_cursor option" where
  "avl_data2node t d = avl_data2node_from d (avl_root t) []"

definition avl_insert_here :: "'a avl_tree \<Rightarrow> 'a \<Rightarrow> 'a \<Rightarrow> avl_ix \<Rightarrow> 'a avl_tree" where
  "avl_insert_here t new_data here direction =
     (case avl_data2node t here of
        None \<Rightarrow> t
      | Some (node, p) \<Rightarrow>
          if avl_child node direction \<noteq> Null then
            (case avl_descend (avl_other direction) (avl_child node direction)
                    (avl_frame_of node direction @ p) of
               (node', p') \<Rightarrow> avl_insert t new_data (avl_frame_of node' (avl_other direction) @ p'))
          else avl_insert t new_data (avl_frame_of node direction @ p))"

text \<open>\<open>None\<close> is the panic of \<open>avl_add\<close> on an element that compares equal to a present one.\<close>

definition avl_add :: "'a compar \<Rightarrow> 'a avl_tree \<Rightarrow> 'a \<Rightarrow> 'a avl_tree option" where
  "avl_add compar t new_node =
     (case avl_find compar t new_node of
        Inl _ \<Rightarrow> None
      | Inr whr \<Rightarrow> Some (avl_insert t new_node whr))"

text \<open>
  The loop of \<open>avl_remove\<close>: \<open>n\<close> is the subtree that has lost one level; the loop
  ends where a height stops changing or at the root.
\<close>

fun avl_remove_up :: "'a avl_node \<Rightarrow> 'a avl_index \<Rightarrow> 'a avl_node" where
  "avl_remove_up n [] = n"
| "avl_remove_up n ((which_child, old_balance, x, s) # p) =
     (let new_balance = old_balance - avl_child2balance which_child
      in if old_balance = 0 then avl_zip (avl_plug n (which_child, new_balance, x, s)) p
         else if new_balance = 0 then avl_remove_up (avl_plug n (which_child, 0, x, s)) p
         else (case avl_rotation (avl_plug n (which_child, old_balance, x, s)) new_balance of
                 (n', shorter) \<Rightarrow> if \<not> shorter then avl_zip n' p else avl_remove_up n' p))"

text \<open>
  Removing the node at a cursor. A node with two children first trades places with its
  in-order neighbour on the taller side: the neighbour's data moves into the node's frame
  (with the node's balance and children) and the deletion continues at the neighbour's
  place, which has at most one child.
\<close>

definition avl_remove_leaf :: "'a avl_cursor \<Rightarrow> 'a avl_node" where
  "avl_remove_leaf cur =
     (case cur of (delete, p) \<Rightarrow>
        avl_remove_up (if avl_child delete C0 \<noteq> Null then avl_child delete C0
                       else avl_child delete C1) p)"

definition avl_remove_at :: "'a avl_cursor \<Rightarrow> 'a avl_node" where
  "avl_remove_at cur =
     (case cur of (delete, p) \<Rightarrow>
        if avl_child delete C0 \<noteq> Null \<and> avl_child delete C1 \<noteq> Null then
          (let old_balance = avl_xbalance delete;
               left = avl_balance2child old_balance;
               right = avl_other left
           in case avl_descend right (avl_child delete left) [] of
                (Null, q) \<Rightarrow> avl_zip delete p
              | (Node b l x r, q) \<Rightarrow>
                  avl_remove_leaf
                    (Node b l x r, q @ (left, old_balance, x, avl_child delete right) # p))
        else avl_remove_leaf cur)"

definition avl_remove :: "'a avl_tree \<Rightarrow> 'a \<Rightarrow> 'a avl_tree" where
  "avl_remove t data =
     (case avl_data2node t data of
        None \<Rightarrow> t
      | Some cur \<Rightarrow> t\<lparr>avl_numnodes := avl_numnodes t - 1, avl_root := avl_remove_at cur\<rparr>)"

text \<open>
  A client writing to the structure a node is embedded in: the element changes in place
  and the tree keeps its shape.
\<close>

definition avl_store :: "'a avl_tree \<Rightarrow> 'a \<Rightarrow> 'a \<Rightarrow> 'a avl_tree" where
  "avl_store t old new =
     (case avl_data2node t old of
        Some (Node b l x r, p) \<Rightarrow> t\<lparr>avl_root := avl_zip (Node b l new r) p\<rparr>
      | _ \<Rightarrow> t)"


text \<open>
  \<open>AVL_REINSERT\<close> and the three repositioning calls, made after the client changed the
  element \<open>obj\<close> in place: whether it moved, or the panic of \<open>avl_add\<close>.
\<close>

definition avl_reinsert :: "'a compar \<Rightarrow> 'a avl_tree \<Rightarrow> 'a \<Rightarrow> 'a avl_tree option" where
  "avl_reinsert compar t obj = avl_add compar (avl_remove t obj) obj"

definition avl_neighbor :: "'a avl_tree \<Rightarrow> 'a \<Rightarrow> avl_ix \<Rightarrow> 'a option" where
  "avl_neighbor t obj direction =
     (case avl_data2node t obj of
        None \<Rightarrow> None
      | Some cur \<Rightarrow>
          (case avl_walk cur direction of None \<Rightarrow> None | Some (n, p) \<Rightarrow> avl_node2data n))"

definition avl_update_lt :: "'a compar \<Rightarrow> 'a avl_tree \<Rightarrow> 'a \<Rightarrow> ('a avl_tree \<times> bool) option" where
  "avl_update_lt compar t obj =
     (case avl_neighbor t obj C0 of
        Some neighbor \<Rightarrow>
          if compar obj neighbor < 0 then map_option (\<lambda>t'. (t', True)) (avl_reinsert compar t obj)
          else Some (t, False)
      | None \<Rightarrow> Some (t, False))"

definition avl_update_gt :: "'a compar \<Rightarrow> 'a avl_tree \<Rightarrow> 'a \<Rightarrow> ('a avl_tree \<times> bool) option" where
  "avl_update_gt compar t obj =
     (case avl_neighbor t obj C1 of
        Some neighbor \<Rightarrow>
          if compar obj neighbor > 0 then map_option (\<lambda>t'. (t', True)) (avl_reinsert compar t obj)
          else Some (t, False)
      | None \<Rightarrow> Some (t, False))"

definition avl_update :: "'a compar \<Rightarrow> 'a avl_tree \<Rightarrow> 'a \<Rightarrow> ('a avl_tree \<times> bool) option" where
  "avl_update compar t obj =
     (case avl_neighbor t obj C0 of
        Some neighbor \<Rightarrow>
          if compar obj neighbor < 0 then map_option (\<lambda>t'. (t', True)) (avl_reinsert compar t obj)
          else avl_update_gt compar t obj
      | None \<Rightarrow> avl_update_gt compar t obj)"

text \<open>
  \<open>avl_destroy_nodes\<close>. The cookie is a parent pointer with a child bit, that is, the frames
  of the node returned last; the empty list is \<open>CHILDBIT\<close> alone.
\<close>

datatype 'a avl_cookie = Cookie_NULL | Cookie "'a avl_index"

definition avl_check_right_side :: "'a avl_cursor \<Rightarrow> 'a avl_cursor" where
  "avl_check_right_side cur =
     (case cur of (node, p) \<Rightarrow>
        if avl_child node C1 \<noteq> Null then (avl_child node C1, avl_frame_of node C1 @ p)
        else (node, p))"

fun avl_destroy_nodes ::
  "'a avl_tree \<Rightarrow> 'a avl_cookie \<Rightarrow> 'a option \<times> 'a avl_tree \<times> 'a avl_cookie" where
  "avl_destroy_nodes t Cookie_NULL =
     (case avl_first t of
        None \<Rightarrow> (None, t, Cookie [])
      | Some cur \<Rightarrow>
          (case avl_check_right_side cur of (node, p) \<Rightarrow> (avl_node2data node, t, Cookie p)))"
| "avl_destroy_nodes t (Cookie []) =
     (None,
      (if avl_root t \<noteq> Null then t\<lparr>avl_root := Null, avl_numnodes := 0\<rparr> else t), Cookie [])"
| "avl_destroy_nodes t (Cookie ((child, b, x, s) # p)) =
     (let parent = avl_plug Null (child, b, x, s);
          t' = t\<lparr>avl_root := avl_zip parent p, avl_numnodes := avl_numnodes t - 1\<rparr>
      in if child = C1 \<or> avl_child parent C1 = Null
         then (avl_node2data parent, t', Cookie p)
         else (case avl_check_right_side
                      (avl_descend C0 (avl_child parent C1) (avl_frame_of parent C1 @ p)) of
                 (node, q) \<Rightarrow> (avl_node2data node, t', Cookie q)))"

section \<open>In-order sequences\<close>

fun inorder :: "'a avl_node \<Rightarrow> 'a list" where
  "inorder Null = []"
| "inorder (Node b l x r) = inorder l @ x # inorder r"

abbreviation avl_elems :: "'a avl_tree \<Rightarrow> 'a list" where
  "avl_elems t \<equiv> inorder (avl_root t)"

text \<open>The elements before and after the slot at the end of a list of frames.\<close>

fun ix_before :: "'a avl_index \<Rightarrow> 'a list" where
  "ix_before [] = []"
| "ix_before ((C0, b, x, s) # p) = ix_before p"
| "ix_before ((C1, b, x, s) # p) = ix_before p @ inorder s @ [x]"

fun ix_after :: "'a avl_index \<Rightarrow> 'a list" where
  "ix_after [] = []"
| "ix_after ((C0, b, x, s) # p) = x # inorder s @ ix_after p"
| "ix_after ((C1, b, x, s) # p) = ix_after p"

text \<open>The elements before and after the node a cursor points to.\<close>

fun cur_before :: "'a avl_cursor \<Rightarrow> 'a list" where
  "cur_before (Null, p) = ix_before p"
| "cur_before (Node b l x r, p) = ix_before p @ inorder l"

fun cur_after :: "'a avl_cursor \<Rightarrow> 'a list" where
  "cur_after (Null, p) = ix_after p"
| "cur_after (Node b l x r, p) = inorder r @ ix_after p"

lemma inorder_zip [inorder_simps]: "inorder (avl_zip n p) = ix_before p @ inorder n @ ix_after p"
proof (induction n p rule: avl_zip.induct)
  case (2 n f p)
  obtain c b x s where "f = (c, b, x, s)" by (cases f)
  with 2 show ?case by (cases c) simp_all
qed simp

lemma inorder_plug [inorder_simps]:
  "inorder (avl_plug n (C0, b, x, s)) = inorder n @ x # inorder s"
  "inorder (avl_plug n (C1, b, x, s)) = inorder s @ x # inorder n"
  by simp_all

lemma inorder_Nil [simp]: "inorder n = [] \<longleftrightarrow> n = Null"
  by (cases n) auto


section \<open>Balance\<close>

fun avl_height :: "'a avl_node \<Rightarrow> nat" where
  "avl_height Null = 0"
| "avl_height (Node b l x r) = 1 + max (avl_height l) (avl_height r)"

text \<open>Every stored balance is the height difference of the children and is -1, 0 or 1.\<close>

fun avl_ok :: "'a avl_node \<Rightarrow> bool" where
  "avl_ok Null \<longleftrightarrow> True"
| "avl_ok (Node b l x r) \<longleftrightarrow>
     b = int (avl_height r) - int (avl_height l) \<and> b \<in> {-1, 0, 1} \<and> avl_ok l \<and> avl_ok r"

definition avl_inv :: "'a avl_tree \<Rightarrow> bool" where
  "avl_inv t \<longleftrightarrow> avl_ok (avl_root t) \<and> avl_numnodes t = length (avl_elems t)"

text \<open>Frames that make a balanced tree around any balanced subtree of height \<open>h\<close>.\<close>

fun frames_ok :: "nat \<Rightarrow> 'a avl_index \<Rightarrow> bool" where
  "frames_ok h [] \<longleftrightarrow> True"
| "frames_ok h ((c, b, x, s) # p) \<longleftrightarrow>
     avl_ok s \<and> b \<in> {-1, 0, 1} \<and>
     b = (case c of C0 \<Rightarrow> int (avl_height s) - int h | C1 \<Rightarrow> int h - int (avl_height s)) \<and>
     frames_ok (1 + max h (avl_height s)) p"

lemma avl_height_0 [simp]: "avl_height n = 0 \<longleftrightarrow> n = Null"
  by (cases n) auto

lemma avl_ok_zip [simp]: "avl_ok (avl_zip n p) \<longleftrightarrow> avl_ok n \<and> frames_ok (avl_height n) p"
proof (induction n p rule: avl_zip.induct)
  case (2 n f p)
  obtain c b x s where "f = (c, b, x, s)" by (cases f)
  with 2 show ?case by (cases c) (auto simp: max.commute)
qed simp

text \<open>
  The rotation, at a node whose child on side \<open>c\<close> is two levels taller than the other: the
  order of the elements stays, the result is balanced, and the reported flag says whether
  the subtree lost a level, which it does unless the tall child was in perfect balance.
\<close>

lemma avl_rotation_ok:
  assumes ok: "avl_ok n" "avl_ok s" and tall: "avl_height n = avl_height s + 2"
    and bal: "balance = 2 * avl_child2balance c"
    and rot: "avl_rotation (avl_plug n (c, b, x, s)) balance = (n', shorter)"
  shows "avl_ok n' \<and> inorder n' = inorder (avl_plug n (c, b, x, s)) \<and>
    shorter = (avl_xbalance n \<noteq> 0) \<and>
    avl_height n' = (if shorter then avl_height n else avl_height n + 1)"
proof -
  obtain nb nl nx nr where n: "n = Node nb nl nx nr"
    using tall by (cases n) auto
  show ?thesis
  proof (cases c)
    case C0
    show ?thesis
    proof (cases "nb = 1")
      case True
      obtain gb gl gx gr where "nr = Node gb gl gx gr"
        using ok n True by (cases nr) auto
      with assms n C0 True show ?thesis by (auto simp: avl_rotation_def Let_def)
    next
      case False
      with assms n C0 show ?thesis by (auto simp: avl_rotation_def Let_def)
    qed
  next
    case C1
    show ?thesis
    proof (cases "nb = -1")
      case True
      obtain gb gl gx gr where "nl = Node gb gl gx gr"
        using ok n True by (cases nl) auto
      with assms n C1 True show ?thesis by (auto simp: avl_rotation_def Let_def)
    next
      case False
      with assms n C1 show ?thesis by (auto simp: avl_rotation_def Let_def)
    qed
  qed
qed


section \<open>Insertion\<close>

lemma avl_insert_up_ok:
  "avl_ok n \<Longrightarrow> frames_ok h p \<Longrightarrow> avl_height n = h + 1 \<Longrightarrow> avl_xbalance n \<noteq> 0 \<or> h = 0 \<Longrightarrow>
   avl_ok (avl_insert_up n p) \<and> inorder (avl_insert_up n p) = ix_before p @ inorder n @ ix_after p"
proof (induction n p arbitrary: h rule: avl_insert_up.induct)
  case (1 n)
  then show ?case by simp
next
  case (2 n c b x s p)
  show ?case
  proof (cases "b + avl_child2balance c = 0")
    case True
    then have "avl_height s = h + 1" using 2(3) by (cases c) auto
    with 2(2-) True show ?thesis by (cases c) (auto simp: inorder_simps)
  next
    case grows: False
    show ?thesis
    proof (cases "b = 0")
      case True
      let ?n = "avl_plug n (c, b + avl_child2balance c, x, s)"
      have "avl_ok ?n \<and> frames_ok (h + 1) p \<and> avl_height ?n = h + 1 + 1 \<and> avl_xbalance ?n \<noteq> 0"
        using 2(2-) True by (cases c) auto
      with 2(1) True grows show ?thesis by (cases c) fastforce+
    next
      case False
      obtain n' shorter where
        rot: "avl_rotation (avl_plug n (c, b, x, s)) (b + avl_child2balance c) = (n', shorter)"
        by fastforce
      have b: "b = avl_child2balance c" using 2(3) False grows by (cases c) auto
      then have tall: "avl_height n = avl_height s + 2" and "h \<noteq> 0"
        using 2(3,4) by (cases c; auto)+
      then have "avl_xbalance n \<noteq> 0" using 2(5) by simp
      with avl_rotation_ok [OF 2(2) _ tall _ rot] 2(3) b
      have "avl_ok n'" "inorder n' = inorder (avl_plug n (c, b, x, s))" "avl_height n' = h + 1"
        using 2(4) by auto
      with 2(3,4) False grows rot b tall show ?thesis
        by (cases c) (auto simp: inorder_simps)
    qed
  qed
qed

text \<open>Inserting into the slot at the end of the frames of a tree.\<close>

lemma avl_insert_elems [inorder_simps]:
  "avl_ok (avl_zip Null whr) \<Longrightarrow> avl_elems (avl_insert t x whr) = ix_before whr @ x # ix_after whr"
  using avl_insert_up_ok [of "Node 0 Null x Null" 0 whr] by (simp add: avl_insert_def)

lemma avl_insert_ok:
  "avl_ok (avl_zip Null whr) \<Longrightarrow> avl_ok (avl_root (avl_insert t x whr))"
  using avl_insert_up_ok [of "Node 0 Null x Null" 0 whr] by (simp add: avl_insert_def)

section \<open>Search, walks and neighbours\<close>

lemma avl_descend_zip:
  "avl_descend c n p = (m, q) \<Longrightarrow> avl_zip m q = avl_zip n p"
  by (induction c n p arbitrary: m q rule: avl_descend.induct) (auto split: if_splits)

lemma avl_descend_Null [simp]: "fst (avl_descend c n p) = Null \<longleftrightarrow> n = Null"
  by (induction c n p rule: avl_descend.induct) auto

text \<open>Descending to the left reaches the first element of the subtree, to the right the last.\<close>

lemma avl_descend_C0:
  "n \<noteq> Null \<Longrightarrow> avl_descend C0 n p = (m, q) \<Longrightarrow>
   cur_before (m, q) = ix_before p \<and> (\<exists>b x r. m = Node b Null x r)"
  by (induction C0 n p arbitrary: m q rule: avl_descend.induct) (auto split: if_splits)

lemma avl_descend_C1:
  "n \<noteq> Null \<Longrightarrow> avl_descend C1 n p = (m, q) \<Longrightarrow>
   cur_after (m, q) = ix_after p \<and> (\<exists>b x l. m = Node b l x Null)"
  by (induction C1 n p arbitrary: m q rule: avl_descend.induct) (auto split: if_splits)

lemma inorder_cursor:
  "inorder (avl_zip (Node b l x r) p) = cur_before (Node b l x r, p) @ x # cur_after (Node b l x r, p)"
  by (simp add: inorder_simps)

lemma avl_find_from_Missing:
  assumes "avl_find_from c n p = Missing q"
  shows "avl_zip Null q = avl_zip n p"
  using assms
  by (induction c n p arbitrary: q rule: avl_find_from.induct)
    (auto simp: Let_def split: if_splits avl_ix.splits)

lemma avl_find_from_Found:
  assumes "avl_find_from c n p = Found (m, q)"
  shows "avl_zip m q = avl_zip n p \<and> (\<exists>b l x r. m = Node b l x r \<and> c x = 0)"
  using assms
  by (induction c n p arbitrary: m q rule: avl_find_from.induct)
    (auto simp: Let_def split: if_splits avl_ix.splits)

text \<open>
  On a sequence that the comparator orders, a failed search ends at the slot that separates
  the smaller from the larger elements.
\<close>

lemma avl_find_from_where:
  assumes "cmp_mono c (ix_before p @ inorder n @ ix_after p)"
    and "\<forall>y \<in> set (ix_before p). c y > 0" and "\<forall>y \<in> set (ix_after p). c y < 0"
    and "avl_find_from c n p = Missing q"
  shows "(\<forall>y \<in> set (ix_before q). c y > 0) \<and> (\<forall>y \<in> set (ix_after q). c y < 0)"
  using assms
proof (induction c n p arbitrary: q rule: avl_find_from.induct)
  case (2 c b l x r p)
  show ?case
  proof (cases "c x < 0")
    case True
    moreover have "\<forall>y \<in> set (inorder r). c y \<le> c x" using 2(3) by simp
    ultimately have "\<forall>y \<in> set (inorder r). c y < 0" by fastforce
    with 2(1) [OF refl] 2(3-) True show ?thesis
      by (auto simp: avl_balance2child_def)
  next
    case False
    then have "c x > 0" using 2(6) by (cases "c x = 0") auto
    moreover have "\<forall>y \<in> set (inorder l). c x \<le> c y" using 2(3) by simp
    ultimately have "c x > 0 \<and> (\<forall>y \<in> set (inorder l). c y > 0)" by fastforce
    then show ?thesis using 2(2) [OF refl] 2(3-)
      by (auto simp: avl_balance2child_def)
  qed
qed simp

lemma avl_find_from_complete:
  assumes "cmp_mono c (inorder n)" and "y \<in> set (inorder n)" and "c y = 0"
  shows "\<exists>cur. avl_find_from c n p = Found cur"
  using assms
proof (induction c n p rule: avl_find_from.induct)
  case (2 c b l x r p)
  show ?case
  proof (cases "c x = 0")
    case False
    then consider "c x < 0" | "c x > 0" by linarith
    then show ?thesis
    proof cases
      case 1
      then have "y \<in> set (inorder l)" using 2(3,4,5) by fastforce
      with 2(1) [OF refl] 2(3,5) 1 show ?thesis by (auto simp: avl_balance2child_def)
    next
      case 2
      then have "y \<in> set (inorder r)" using "2.prems" by fastforce
      with "2.IH"(2) [OF refl] "2.prems" 2 show ?thesis by (auto simp: avl_balance2child_def)
    qed
  qed simp
qed simp


text \<open>Climbing from a node finds the nearest element outside its subtree.\<close>

lemma avl_walk_up_C1:
  "case avl_walk_up C1 n p of
     None \<Rightarrow> ix_before p = []
   | Some (m, q) \<Rightarrow> avl_zip m q = avl_zip n p \<and>
       (\<exists>b l x r. m = Node b l x r \<and> ix_before p = cur_before (m, q) @ [x])"
proof (induction "C1" n p rule: avl_walk_up.induct)
  case (2 n c b x s p)
  then show ?case by (cases c) (auto split: option.splits)
qed simp

lemma avl_walk_up_C0:
  "case avl_walk_up C0 n p of
     None \<Rightarrow> ix_after p = []
   | Some (m, q) \<Rightarrow> avl_zip m q = avl_zip n p \<and>
       (\<exists>b l x r. m = Node b l x r \<and> ix_after p = x # cur_after (m, q))"
proof (induction "C0" n p rule: avl_walk_up.induct)
  case (2 n c b x s p)
  then show ?case by (cases c) (auto split: option.splits)
qed simp

lemma avl_walk_C0:
  assumes "n = Node b l x r"
  shows "case avl_walk (n, p) C0 of
     None \<Rightarrow> cur_before (n, p) = []
   | Some (m, q) \<Rightarrow> avl_zip m q = avl_zip n p \<and>
       (\<exists>b l y r. m = Node b l y r \<and> cur_before (n, p) = cur_before (m, q) @ [y])"
proof (cases "l = Null")
  case True
  with avl_walk_up_C1 [where n = n and p = p] assms show ?thesis
    by (auto simp: avl_walk_def split: option.splits)
next
  case False
  obtain m q where d: "avl_descend C1 l ((C0, b, x, r) # p) = (m, q)" by fastforce
  obtain b' l' y where m: "m = Node b' l' y Null" and after: "cur_after (m, q) = x # inorder r @ ix_after p"
    using avl_descend_C1 [OF False d] by auto
  have z: "avl_zip m q = avl_zip n p" using avl_descend_zip [OF d] assms by simp
  then have "inorder (avl_zip m q) = inorder (avl_zip n p)" by simp
  then have "cur_before (n, p) = cur_before (m, q) @ [y]"
    using assms m after inorder_cursor [of b' l' y Null q] by (simp add: inorder_simps)
  with d m z assms False show ?thesis by (auto simp: avl_walk_def)
qed

lemma avl_walk_C1:
  assumes "n = Node b l x r"
  shows "case avl_walk (n, p) C1 of
     None \<Rightarrow> cur_after (n, p) = []
   | Some (m, q) \<Rightarrow> avl_zip m q = avl_zip n p \<and>
       (\<exists>b l y r. m = Node b l y r \<and> cur_after (n, p) = y # cur_after (m, q))"
proof (cases "r = Null")
  case True
  with avl_walk_up_C0 [where n = n and p = p] assms show ?thesis
    by (auto simp: avl_walk_def split: option.splits)
next
  case False
  obtain m q where d: "avl_descend C0 r ((C1, b, x, l) # p) = (m, q)" by fastforce
  obtain b' r' y where m: "m = Node b' Null y r'" and before: "cur_before (m, q) = ix_before p @ inorder l @ [x]"
    using avl_descend_C0 [OF False d] by auto
  have z: "avl_zip m q = avl_zip n p" using avl_descend_zip [OF d] assms by simp
  then have "inorder (avl_zip m q) = inorder (avl_zip n p)" by simp
  then have "cur_after (n, p) = y # cur_after (m, q)"
    using assms m before inorder_cursor [of b' Null y r' q] by (simp add: inorder_simps)
  with d m z assms False show ?thesis by (auto simp: avl_walk_def)
qed

text \<open>The elements \<open>avl_nearest\<close> returns for the slot of a failed search.\<close>

definition avl_nearest_data :: "'a avl_index \<Rightarrow> avl_ix \<Rightarrow> 'a option" where
  "avl_nearest_data whr direction =
     (case avl_nearest whr direction of None \<Rightarrow> None | Some (n, p) \<Rightarrow> avl_node2data n)"

lemma avl_nearest_before: "avl_nearest_data whr C0 = last_opt (ix_before whr)"
proof (cases whr)
  case (Cons f p)
  then obtain c b x s where f: "whr = (c, b, x, s) # p" by (cases f) auto
  show ?thesis
    using f avl_walk_C0 [of "avl_plug Null (C0, b, x, s)" b Null x s p]
    by (cases c) (auto simp: avl_nearest_data_def avl_nearest_def last_opt_def split: option.splits)
qed (simp add: avl_nearest_data_def avl_nearest_def)

lemma avl_nearest_after: "avl_nearest_data whr C1 = first_opt (ix_after whr)"
proof (cases whr)
  case (Cons f p)
  then obtain c b x s where f: "whr = (c, b, x, s) # p" by (cases f) auto
  show ?thesis
    using f avl_walk_C1 [of "avl_plug Null (C1, b, x, s)" b s x Null p]
    by (cases c) (auto simp: avl_nearest_data_def avl_nearest_def split: option.splits)
qed (simp add: avl_nearest_data_def avl_nearest_def)

text \<open>
  \<open>for (x = avl_first(t); x != NULL; x = AVL_NEXT(t, x))\<close>: the elements in the order of the
  loop. It visits the in-order sequence.
\<close>

function avl_from :: "'a avl_cursor \<Rightarrow> 'a list" where
  "avl_from (Null, p) = []"
| "avl_from (Node b l x r, p) =
     x # (case avl_walk (Node b l x r, p) C1 of None \<Rightarrow> [] | Some cur \<Rightarrow> avl_from cur)"
  by pat_completeness auto
termination
proof (relation "measure (\<lambda>cur. length (cur_after cur))", goal_cases)
  case (2 b l x r p cur)
  obtain m q where cur: "cur = (m, q)" by fastforce
  with avl_walk_C1 [OF refl, of b l x r p] 2 show ?case
    by (auto dest: arg_cong [of _ _ length])
qed simp

definition avl_for_each :: "'a avl_tree \<Rightarrow> 'a list" where
  "avl_for_each t = (case avl_first t of None \<Rightarrow> [] | Some cur \<Rightarrow> avl_from cur)"

lemma avl_from_after:
  "avl_from cur = (case fst cur of Null \<Rightarrow> [] | Node b l x r \<Rightarrow> x # cur_after cur)"
proof (induction cur rule: avl_from.induct)
  case (2 b l x r p)
  show ?case
  proof (cases "avl_walk (Node b l x r, p) C1")
    case None
    with avl_walk_C1 [OF refl, of b l x r p] show ?thesis by simp
  next
    case (Some cur)
    obtain m q where cur: "cur = (m, q)" by fastforce
    with Some avl_walk_C1 [OF refl, of b l x r p] obtain b' l' y r' where
      "m = Node b' l' y r'" and "cur_after (Node b l x r, p) = y # cur_after (m, q)" by auto
    with 2 [OF Some] Some cur show ?thesis by simp
  qed
qed simp

lemma avl_for_each_elems [simp]: "avl_for_each t = avl_elems t"
proof (cases "avl_root t = Null")
  case False
  obtain m q where d: "avl_descend C0 (avl_root t) [] = (m, q)" by fastforce
  then obtain b x r where m: "m = Node b Null x r" and "cur_before (m, q) = []"
    using avl_descend_C0 [OF False d] by auto
  with avl_descend_zip [OF d] inorder_zip [of m q] have "avl_elems t = x # cur_after (m, q)" by simp
  with False d m show ?thesis
    by (simp add: avl_for_each_def avl_first_def avl_from_after del: avl_from.simps)
qed (simp add: avl_for_each_def avl_first_def)

section \<open>Removal\<close>

lemma avl_plug_other: "avl_plug n (c, b, x, s) = avl_plug s (avl_other c, b, x, n)"
  by (cases c) simp_all

lemma avl_remove_up_ok:
  "avl_ok n \<Longrightarrow> frames_ok (avl_height n + 1) p \<Longrightarrow>
   avl_ok (avl_remove_up n p) \<and> inorder (avl_remove_up n p) = ix_before p @ inorder n @ ix_after p"
proof (induction n p rule: avl_remove_up.induct)
  case (1 n)
  then show ?case by simp
next
  case (2 n c b x s p)
  consider "b = 0" | "b \<noteq> 0" "b = avl_child2balance c" | "b \<noteq> 0" "b = - avl_child2balance c"
    using 2(4) by (cases c) auto
  then show ?case
  proof cases
    case 1
    moreover have "avl_height s = avl_height n + 1" using 2(4) 1 by (cases c) auto
    ultimately show ?thesis using 2(3,4) by (cases c) (auto simp: inorder_simps)
  next
    case 2
    moreover have "avl_height s = avl_height n" using "2.prems"(2) 2 by (cases c) auto
    ultimately show ?thesis using "2.prems" "2.IH"(1) [OF refl 2(1)] by (cases c) auto
  next
    case 3
    then have tall: "avl_height s = avl_height n + 2" and nb: "b - avl_child2balance c \<noteq> 0"
      using 2(4) by (cases c; auto)+
    obtain n' shorter where
      rot: "avl_rotation (avl_plug n (c, b, x, s)) (b - avl_child2balance c) = (n', shorter)"
      by fastforce
    have bal: "b - avl_child2balance c = 2 * avl_child2balance (avl_other c)"
      using 3 by (cases c) auto
    have s: "avl_ok s" and p: "frames_ok (avl_height s + 1) p" using 2(4) tall by auto
    from avl_rotation_ok [OF s 2(3) tall bal] rot
    have n': "avl_ok n'" "inorder n' = inorder (avl_plug n (c, b, x, s))"
      and h: "avl_height n' = (if shorter then avl_height s else avl_height s + 1)"
      by (simp_all add: avl_plug_other [of n c])
    show ?thesis
    proof (cases shorter)
      case True
      then show ?thesis using "2.IH"(2) [OF refl 3(1) nb rot [symmetric]] n' h p 3 nb rot
        by (cases c) (auto simp: inorder_simps)
    next
      case False
      then show ?thesis using n' h p 3 nb rot by (cases c) (auto simp: inorder_simps)
    qed
  qed
qed

lemma avl_remove_leaf_ok:
  assumes "avl_ok (avl_zip (Node b l x r) p)" and "l = Null \<or> r = Null"
  shows "avl_ok (avl_remove_leaf (Node b l x r, p)) \<and>
    inorder (avl_remove_leaf (Node b l x r, p)) = cur_before (Node b l x r, p) @ cur_after (Node b l x r, p)"
  using assms avl_remove_up_ok [of l p] avl_remove_up_ok [of r p]
  by (auto simp: avl_remove_leaf_def)


lemma avl_zip_append: "avl_zip n (p @ q) = avl_zip (avl_zip n p) q"
  by (induction n p rule: avl_zip.induct) simp_all

lemma ix_before_append [simp]: "ix_before (p @ q) = ix_before q @ ix_before p"
  by (induction p rule: ix_before.induct) simp_all

lemma ix_after_append [simp]: "ix_after (p @ q) = ix_after p @ ix_after q"
  by (induction p rule: ix_after.induct) simp_all

lemma avl_remove_at_ok:
  assumes ok: "avl_ok (avl_zip (Node b l x r) p)"
  shows "avl_ok (avl_remove_at (Node b l x r, p)) \<and>
    inorder (avl_remove_at (Node b l x r, p)) = cur_before (Node b l x r, p) @ cur_after (Node b l x r, p)"
proof (cases "l = Null \<or> r = Null")
  case True
  then show ?thesis using avl_remove_leaf_ok [OF ok] by (auto simp: avl_remove_at_def)
next
  case two: False
  show ?thesis
  proof (cases "avl_balance2child b")
    case C0
    obtain m q where d: "avl_descend C1 l [] = (m, q)" by fastforce
    obtain b' l' y where m: "m = Node b' l' y Null" and q: "ix_after q = []"
      using avl_descend_C1 [OF _ d] two by auto
    have z: "avl_zip m q = l" using avl_descend_zip [OF d] by simp
    have l: "inorder l = ix_before q @ inorder l' @ [y]"
      using inorder_zip [of m q] z m q by simp
    have "avl_ok (avl_zip m (q @ (C0, b, y, r) # p))" using ok z by (auto simp: avl_zip_append)
    from avl_remove_leaf_ok [OF this [unfolded m]] m l q d two C0
    show ?thesis by (simp add: avl_remove_at_def)
  next
    case C1
    obtain m q where d: "avl_descend C0 r [] = (m, q)" by fastforce
    obtain b' r' y where m: "m = Node b' Null y r'" and q: "ix_before q = []"
      using avl_descend_C0 [OF _ d] two by auto
    have z: "avl_zip m q = r" using avl_descend_zip [OF d] by simp
    have r: "inorder r = y # inorder r' @ ix_after q"
      using inorder_zip [of m q] z m q by simp
    have "avl_ok (avl_zip m (q @ (C1, b, y, l) # p))" using ok z by (auto simp: avl_zip_append)
    from avl_remove_leaf_ok [OF this [unfolded m]] m r q d two C1
    show ?thesis by (simp add: avl_remove_at_def)
  qed
qed

section \<open>Finding the node of an element\<close>

lemma avl_data2node_from_Some:
  "avl_data2node_from d n p = Some (m, q) \<Longrightarrow>
   avl_zip m q = avl_zip n p \<and> (\<exists>b l r. m = Node b l d r)"
  by (induction d n p arbitrary: m q rule: avl_data2node_from.induct)
    (fastforce split: if_splits option.splits)+

lemma avl_data2node_from_None [simp]:
  "avl_data2node_from d n p = None \<longleftrightarrow> d \<notin> set (inorder n)"
  by (induction d n p rule: avl_data2node_from.induct) (auto split: option.splits)

lemma avl_data2node_SomeE:
  assumes "d \<in> set (avl_elems t)"
  obtains b l r p where "avl_data2node t d = Some (Node b l d r, p)"
    and "avl_zip (Node b l d r) p = avl_root t"
    and "avl_elems t = cur_before (Node b l d r, p) @ d # cur_after (Node b l d r, p)"
proof -
  obtain m p where mp: "avl_data2node t d = Some (m, p)"
    using assms by (cases "avl_data2node t d") (auto simp: avl_data2node_def)
  then obtain b l r where "m = Node b l d r" and z: "avl_zip m p = avl_root t"
    using avl_data2node_from_Some [of d "avl_root t" "[]" m p] by (auto simp: avl_data2node_def)
  with mp that show ?thesis using inorder_cursor [of b l d r p] by simp
qed

text \<open>The operations on elements, as operations on the in-order sequence.\<close>

lemma avl_remove_split:
  assumes "avl_ok (avl_root t)" and "avl_elems t = xs @ d # ys" and "distinct (avl_elems t)"
  shows "avl_ok (avl_root (avl_remove t d))" and "avl_elems (avl_remove t d) = xs @ ys"
proof -
  obtain b l r p where mp: "avl_data2node t d = Some (Node b l d r, p)"
    and z: "avl_zip (Node b l d r) p = avl_root t"
    and e: "avl_elems t = cur_before (Node b l d r, p) @ d # cur_after (Node b l d r, p)"
    by (rule avl_data2node_SomeE [of d t]) (simp add: assms(2))
  have "cur_before (Node b l d r, p) = xs \<and> cur_after (Node b l d r, p) = ys"
    by (rule distinct_split_unique [OF assms(3,2) e])
  with avl_remove_at_ok [of b l d r p] mp z assms(1)
  show "avl_ok (avl_root (avl_remove t d))" and "avl_elems (avl_remove t d) = xs @ ys"
    by (simp_all add: avl_remove_def)
qed

lemma avl_numnodes_remove:
  "d \<in> set (avl_elems t) \<Longrightarrow> avl_numnodes (avl_remove t d) = avl_numnodes t - 1"
  by (auto simp: avl_remove_def elim: avl_data2node_SomeE)

lemma avl_store_split:
  assumes "avl_elems t = xs @ d # ys" and "distinct (avl_elems t)"
  shows "avl_elems (avl_store t d e) = xs @ e # ys"
    and "avl_ok (avl_root (avl_store t d e)) = avl_ok (avl_root t)"
    and "avl_numnodes (avl_store t d e) = avl_numnodes t"
proof -
  obtain b l r p where mp: "avl_data2node t d = Some (Node b l d r, p)"
    and z: "avl_zip (Node b l d r) p = avl_root t"
    and el: "avl_elems t = cur_before (Node b l d r, p) @ d # cur_after (Node b l d r, p)"
    by (rule avl_data2node_SomeE [of d t]) (simp add: assms(1))
  have "cur_before (Node b l d r, p) = xs \<and> cur_after (Node b l d r, p) = ys"
    by (rule distinct_split_unique [OF assms(2,1) el])
  with mp show "avl_elems (avl_store t d e) = xs @ e # ys"
    by (auto simp: avl_store_def inorder_simps)
  show "avl_ok (avl_root (avl_store t d e)) = avl_ok (avl_root t)"
    using mp z [symmetric] by (simp add: avl_store_def)
  show "avl_numnodes (avl_store t d e) = avl_numnodes t"
    using mp by (simp add: avl_store_def)
qed


lemma avl_insert_here_after:
  assumes "avl_ok (avl_root t)" and "avl_elems t = xs @ d # ys" and "distinct (avl_elems t)"
  shows "avl_elems (avl_insert_here t x d C1) = xs @ d # x # ys"
    and "avl_ok (avl_root (avl_insert_here t x d C1))"
    and "avl_numnodes (avl_insert_here t x d C1) = avl_numnodes t + 1"
proof -
  obtain b l r p where mp: "avl_data2node t d = Some (Node b l d r, p)"
    and z: "avl_zip (Node b l d r) p = avl_root t"
    and el: "avl_elems t = cur_before (Node b l d r, p) @ d # cur_after (Node b l d r, p)"
    by (rule avl_data2node_SomeE [of d t]) (simp add: assms(2))
  have xs: "cur_before (Node b l d r, p) = xs" and ys: "cur_after (Node b l d r, p) = ys"
    using distinct_split_unique [OF assms(3,2) el] by blast+
  have "\<exists>w. avl_insert_here t x d C1 = avl_insert t x w \<and> avl_zip Null w = avl_root t \<and>
      ix_before w = xs @ [d] \<and> ix_after w = ys"
  proof (cases "r = Null")
    case True
    with mp z xs ys show ?thesis by (auto simp: avl_insert_here_def)
  next
    case False
    obtain m q where dd: "avl_descend C0 r ((C1, b, d, l) # p) = (m, q)" by fastforce
    obtain b' r' y where m: "m = Node b' Null y r'" and bef: "cur_before (m, q) = ix_before p @ inorder l @ [d]"
      using avl_descend_C0 [OF False dd] by auto
    have z': "avl_zip m q = avl_root t" using avl_descend_zip [OF dd] z by simp
    with m bef xs el ys have "ix_after ((C0, b', y, r') # q) = ys"
      using inorder_zip [of m q] by auto
    moreover have "avl_insert_here t x d C1 = avl_insert t x ((C0, b', y, r') # q)"
      using mp dd m False by (simp add: avl_insert_here_def)
    ultimately show ?thesis using m z' bef xs
      by (intro exI [of _ "(C0, b', y, r') # q"]) simp
  qed
  then obtain w where w: "avl_insert_here t x d C1 = avl_insert t x w" "avl_zip Null w = avl_root t"
      "ix_before w = xs @ [d]" "ix_after w = ys" by blast
  show "avl_elems (avl_insert_here t x d C1) = xs @ d # x # ys"
    using w avl_insert_elems [of w t x] assms(1) by simp
  show "avl_ok (avl_root (avl_insert_here t x d C1))"
    using w avl_insert_ok [of w t x] assms(1) by simp
  show "avl_numnodes (avl_insert_here t x d C1) = avl_numnodes t + 1"
    using w by (simp add: avl_insert_def)
qed

section \<open>The tree keeps the search-tree contract\<close>

interpretation avlt: search_tree avl_elems avl_inv avl_lookup
  "\<lambda>t w. avl_zip Null w = avl_root t" ix_before ix_after avl_insert avl_remove avl_store
proof (unfold_locales, goal_cases)
  case (1 c t x)
  then obtain b l r p where "avl_find_from c (avl_root t) [] = Found (Node b l x r, p)"
    by (auto simp: avl_lookup_def split: avl_found.splits avl_node.splits)
  with avl_find_from_Found [OF this] show ?case
    using inorder_cursor [of b l x r p] by simp
next
  case (2 c t y)
  then show ?case
    using avl_find_from_complete [of c "avl_root t" y "[]"] avl_find_from_Found [of c "avl_root t" "[]"]
    by (fastforce simp: avl_lookup_def)
next
  case (3 c t w)
  then have "avl_find_from c (avl_root t) [] = Missing w"
    using avl_find_from_Found [of c "avl_root t" "[]"]
    by (auto simp: avl_lookup_def split: avl_found.splits avl_node.splits)
  then show ?case using avl_find_from_Missing by fastforce
next
  case (4 c t w)
  then have "avl_find_from c (avl_root t) [] = Missing w"
    using avl_find_from_Found [of c "avl_root t" "[]"]
    by (auto simp: avl_lookup_def split: avl_found.splits avl_node.splits)
  with avl_find_from_where [of c "[]" "avl_root t" w] 4 show ?case by simp
next
  case (5 t w)
  then show ?case using inorder_zip [of Null w] by simp
next
  case (6 t w x)
  then have "avl_ok (avl_zip Null w)" by (simp add: avl_inv_def)
  with avl_insert_ok [of w t x] avl_insert_elems [of w t x] inorder_zip [of Null w] 6
  show ?case by (simp add: avl_inv_def) (simp add: avl_insert_def)
next
  case (7 t w x)
  then have "avl_ok (avl_zip Null w)" by (simp add: avl_inv_def)
  then show ?case by (rule avl_insert_elems)
next
  case (8 t d)
  then obtain xs ys where "avl_elems t = xs @ d # ys" by (meson split_list)
  with 8 avl_remove_split [of t xs d ys] avl_numnodes_remove [of d t] show ?case
    by (simp add: avl_inv_def)
next
  case (9 t xs d ys)
  then show ?case using avl_remove_split [of t xs d ys] by (simp add: avl_inv_def)
next
  case (10 t d e)
  then obtain xs ys where "avl_elems t = xs @ d # ys" by (meson split_list)
  with 10 avl_store_split [of t xs d ys e] show ?case by (simp add: avl_inv_def)
next
  case (11 t xs d ys e)
  then show ?case by (intro avl_store_split)
qed


section \<open>Draining a tree\<close>

fun postorder :: "'a avl_node \<Rightarrow> 'a list" where
  "postorder Null = []"
| "postorder (Node b l x r) = postorder l @ postorder r @ [x]"

lemma mset_postorder: "mset (postorder n) = mset (inorder n)"
  by (induction n) simp_all

definition ix_size :: "'a avl_index \<Rightarrow> nat" where
  "ix_size p = length (ix_before p) + length (ix_after p)"

lemma ix_size_zip: "ix_size p = length (inorder (avl_zip Null p))"
  by (simp add: ix_size_def inorder_simps)

lemma ix_size_cursor:
  "n \<noteq> Null \<Longrightarrow> ix_size p < length (inorder (avl_zip n p))"
  by (cases n) (simp_all add: ix_size_def inorder_simps)

lemma avl_check_right_side_zip:
  "avl_check_right_side (n, p) = (m, q) \<Longrightarrow> n \<noteq> Null \<Longrightarrow> avl_zip m q = avl_zip n p \<and> m \<noteq> Null"
  by (cases n) (auto simp: avl_check_right_side_def split: if_splits)

text \<open>
  The node a call with cookie \<open>NULL\<close> starts from, and the one a later call moves to when it
  turns into a right subtree: the first node of the subtree in post-order.
\<close>

definition avl_post_first :: "'a avl_node \<Rightarrow> 'a avl_index \<Rightarrow> 'a avl_cursor" where
  "avl_post_first n p = avl_check_right_side (avl_descend C0 n p)"

lemma avl_post_first_zip:
  assumes "avl_post_first n p = (m, q)" and "n \<noteq> Null"
  shows "avl_zip m q = avl_zip n p \<and> m \<noteq> Null \<and> ix_size q < length (inorder (avl_zip n p))"
proof -
  obtain m' q' where d: "avl_descend C0 n p = (m', q')" by fastforce
  then have "m' \<noteq> Null" using avl_descend_Null [of C0 n p] assms(2) by simp
  with avl_check_right_side_zip [of m' q' m q] avl_descend_zip [OF d] assms(1) d
    ix_size_cursor [of m q]
  show ?thesis by (simp add: avl_post_first_def)
qed

text \<open>\<open>while ((node = avl_destroy_nodes(tree, &cookie)) != NULL) ...\<close>\<close>

function avl_drain :: "'a avl_tree \<Rightarrow> 'a avl_cookie \<Rightarrow> 'a list \<times> 'a avl_tree" where
  "avl_drain t cookie =
     (case avl_destroy_nodes t cookie of
        (None, t', cookie') \<Rightarrow> ([], t')
      | (Some x, t', cookie') \<Rightarrow>
          (case avl_drain t' cookie' of (xs, t'') \<Rightarrow> (x # xs, t'')))"
  by pat_completeness auto

lemma avl_destroy_nodes_measure:
  assumes "avl_destroy_nodes t cookie = (Some x, t', cookie')"
  shows "\<exists>q. cookie' = Cookie q \<and>
    ix_size q < (case cookie of Cookie_NULL \<Rightarrow> length (avl_elems t) | Cookie p \<Rightarrow> ix_size p)"
proof (cases cookie)
  case Cookie_NULL
  then have n: "avl_root t \<noteq> Null" using assms by (auto simp: avl_first_def)
  obtain m q where "avl_post_first (avl_root t) [] = (m, q)" by fastforce
  with avl_post_first_zip [OF this n] assms n Cookie_NULL show ?thesis
    by (auto simp: avl_first_def avl_post_first_def)
next
  case (Cookie p)
  with assms obtain c b y s p' where p: "p = (c, b, y, s) # p'" by (cases p) auto
  show ?thesis
  proof (cases "c = C1 \<or> s = Null")
    case True
    with assms Cookie p show ?thesis by (cases c) (auto simp: ix_size_def)
  next
    case False
    then have c: "c = C0" using avl_other.cases by blast
    obtain m q where pf: "avl_post_first s ((C1, b, y, Null) # p') = (m, q)" by fastforce
    have "length (inorder (avl_zip s ((C1, b, y, Null) # p'))) = ix_size p"
      using p c by (simp add: ix_size_def inorder_simps)
    with avl_post_first_zip [OF pf] False assms Cookie p c pf show ?thesis
      by (auto simp: avl_post_first_def)
  qed
qed

termination avl_drain
proof (relation "measure (\<lambda>(t, c). case c of Cookie_NULL \<Rightarrow> Suc (length (avl_elems t)) | Cookie p \<Rightarrow> ix_size p)",
    goal_cases)
  case (2 t cookie)
  then show ?case
    by (auto dest!: avl_destroy_nodes_measure [OF sym] split: avl_cookie.splits)
qed simp

declare avl_drain.simps [simp del]


lemma avl_drain_end: "avl_drain t (Cookie []) = ([], if avl_root t = Null then t else t\<lparr>avl_root := Null, avl_numnodes := 0\<rparr>)"
  by (simp add: avl_drain.simps)

lemma avl_drain_Cookie:
  assumes "c = C1 \<or> s = Null"
  shows "avl_drain t (Cookie ((c, b, x, s) # p)) =
    map_prod ((#) x) id (avl_drain (t\<lparr>avl_root := avl_zip (avl_plug Null (c, b, x, s)) p,
      avl_numnodes := avl_numnodes t - 1\<rparr>) (Cookie p))"
  using assms by (cases c) (auto simp: avl_drain.simps [of t] split: prod.splits)

lemma avl_drain_turn:
  assumes "avl_post_first s ((C1, b, x, Null) # p) = (Node b' l' y r', q)" and "s \<noteq> Null"
  shows "avl_drain t (Cookie ((C0, b, x, s) # p)) =
    map_prod ((#) y) id (avl_drain (t\<lparr>avl_root := avl_zip (Node b Null x s) p,
      avl_numnodes := avl_numnodes t - 1\<rparr>) (Cookie q))"
  using assms by (auto simp: avl_drain.simps [of t] avl_post_first_def split: prod.splits)

text \<open>
  From the first node of a balanced subtree on, the loop returns the subtree's elements in
  post-order and then goes on from the subtree's parent.
\<close>

lemma avl_drain_subtree:
  assumes "avl_ok n" and "n \<noteq> Null" and "avl_post_first n p = (Node b' l' y r', q)"
  shows "\<exists>t'. y # fst (avl_drain t (Cookie q)) = postorder n @ fst (avl_drain t' (Cookie p)) \<and>
    snd (avl_drain t (Cookie q)) = snd (avl_drain t' (Cookie p)) \<and>
    (avl_root t = avl_zip n p \<longrightarrow> (\<exists>m. m \<noteq> Null \<and> avl_root t' = avl_zip m p))"
  using assms
proof (induction n arbitrary: p b' l' y r' q t)
  case (Node b l x r)
  show ?case
  proof (cases "l = Null")
    case l: True
    show ?thesis
    proof (cases "r = Null")
      case True
      with l Node.prems show ?thesis
        by (intro exI [of _ t]) (auto simp: avl_post_first_def avl_check_right_side_def)
    next
      case False
      then obtain rx where r: "r = Node 0 Null rx Null"
        using Node.prems(1) l by (cases r) (auto simp: max_def split: if_splits)
      with l Node.prems have "q = (C1, b, x, Null) # p" "y = rx"
        by (auto simp: avl_post_first_def avl_check_right_side_def)
      with l r show ?thesis
        by (auto simp: avl_drain_Cookie intro!: exI [of _ "t\<lparr>avl_root := avl_zip (Node b Null x Null) p, avl_numnodes := avl_numnodes t - 1\<rparr>"])
    qed
  next
    case l: False
    with Node.prems have pl: "avl_post_first l ((C0, b, x, r) # p) = (Node b' l' y r', q)"
      by (simp add: avl_post_first_def)
    from Node.IH(1) [OF _ l pl, of t] Node.prems(1) obtain t1 where
      t1: "y # fst (avl_drain t (Cookie q)) = postorder l @ fst (avl_drain t1 (Cookie ((C0, b, x, r) # p)))"
        "snd (avl_drain t (Cookie q)) = snd (avl_drain t1 (Cookie ((C0, b, x, r) # p)))"
      by auto
    show ?thesis
    proof (cases "r = Null")
      case True
      with t1 show ?thesis
        by (auto simp: avl_drain_Cookie intro!: exI [of _ "t1\<lparr>avl_root := avl_zip (Node b Null x Null) p, avl_numnodes := avl_numnodes t1 - 1\<rparr>"])
    next
      case r: False
      obtain m q' where pr: "avl_post_first r ((C1, b, x, Null) # p) = (m, q')" by fastforce
      then obtain mb ml my mr where m: "m = Node mb ml my mr"
        using avl_post_first_zip [OF pr r] by (cases m) auto
      let ?t = "t1\<lparr>avl_root := avl_zip (Node b Null x r) p, avl_numnodes := avl_numnodes t1 - 1\<rparr>"
      from Node.IH(2) [OF _ r pr [unfolded m], of ?t] Node.prems(1) obtain t2 where
        "my # fst (avl_drain ?t (Cookie q')) = postorder r @ fst (avl_drain t2 (Cookie ((C1, b, x, Null) # p)))"
        "snd (avl_drain ?t (Cookie q')) = snd (avl_drain t2 (Cookie ((C1, b, x, Null) # p)))"
        by auto
      with t1 pr m r show ?thesis
        by (auto simp: avl_drain_Cookie avl_drain_turn [OF pr [unfolded m] r] intro!: exI [of _ "t2\<lparr>avl_root := avl_zip (Node b Null x Null) p, avl_numnodes := avl_numnodes t2 - 1\<rparr>"])
    qed
  qed
qed simp


section \<open>Height\<close>


section \<open>Properties\<close>

lemma compar_order_sgn: "compar_order (\<lambda>x y :: int. sgn (x - y))"
  by unfold_locales (auto simp: sgn_if split: if_splits)

text \<open>
  C9. \<open>avl_add\<close> on a balanced tree that is ordered by its comparison function: it panics
  exactly when an element compares equal to the new one; otherwise the tree stays balanced
  with its node count exact, stays ordered, and holds the old elements and the new one.
\<close>

theorem avl_add_correct:
  assumes "compar_order compar" and "avl_inv t"
    and "sorted_wrt (\<lambda>x y. compar x y < 0) (avl_elems t)"
  shows "case avl_add compar t x of
      None \<Rightarrow> \<exists>y \<in> set (avl_elems t). compar x y = 0
    | Some t' \<Rightarrow> avl_inv t' \<and> sorted_wrt (\<lambda>x y. compar x y < 0) (avl_elems t') \<and>
        set (avl_elems t') = insert x (set (avl_elems t)) \<and>
        avl_numnodes t' = avl_numnodes t + 1 \<and> (\<forall>y \<in> set (avl_elems t). compar x y \<noteq> 0)"
proof -
  have ot: "ordered_tree avl_elems avl_inv avl_lookup (\<lambda>t w. avl_zip Null w = avl_root t)
      ix_before ix_after avl_insert avl_remove avl_store compar"
    using avlt.search_tree_axioms assms(1) by (rule ordered_tree.intro)
  have o: "compar_order.ordered compar (avl_elems t)"
    using assms(1,3) by (simp add: compar_order.ordered_def)
  show ?thesis
  proof (cases "avl_lookup (compar x) t")
    case (Inl y)
    with avlt.lookup_Inl [OF Inl] show ?thesis by (auto simp: avl_add_def avl_find_def)
  next
    case (Inr w)
    have "\<forall>y \<in> set (avl_elems t). compar x y \<noteq> 0"
      using ordered_tree.lookup_ordered [OF ot o, of x] Inr by auto
    with ordered_tree.insert_ordered [OF ot o assms(2) Inr] Inr assms(1)
    show ?thesis by (auto simp: avl_add_def avl_find_def compar_order.ordered_def avl_insert_def)
  qed
qed

theorem avl_add_correct_witness:
  "\<exists>t. avl_add (\<lambda>x y. sgn (x - y)) \<lparr>avl_root = Node 1 Null 1 (Node 0 Null 2 Null), avl_numnodes = 2\<rparr> 3
     = Some t \<and> avl_inv t \<and> set (avl_elems t) = {1, 2, 3 :: int}"
proof -
  let ?t = "\<lparr>avl_root = Node 1 Null 1 (Node 0 Null (2 :: int) Null), avl_numnodes = 2\<rparr>"
  have "avl_inv ?t" by (simp add: avl_inv_def)
  moreover have "sorted_wrt (\<lambda>x y :: int. sgn (x - y) < 0) (avl_elems ?t)" by simp
  ultimately show ?thesis
    using avl_add_correct [OF compar_order_sgn, of ?t 3] by (auto split: option.splits)
qed

text \<open>
  C10. \<open>avl_remove\<close> of an element of a balanced tree of distinct elements: the tree stays
  balanced with its node count exact and the other elements keep their order.
\<close>

theorem avl_remove_correct:
  assumes "avl_inv t" and "distinct (avl_elems t)" and "avl_elems t = xs @ d # ys"
  shows "avl_inv (avl_remove t d) \<and> avl_elems (avl_remove t d) = xs @ ys"
  using avlt.remove_inv [OF assms(1,2)] avlt.remove_elems [OF assms] assms(3) by simp

theorem avl_remove_correct_witness:
  "avl_elems (avl_remove \<lparr>avl_root = Node 0 (Node 0 Null 1 Null) 2 (Node 0 Null (3 :: int) Null),
     avl_numnodes = 3\<rparr> 2) = [1, 3]"
  using avl_remove_correct [of "\<lparr>avl_root = Node 0 (Node 0 Null 1 Null) 2 (Node 0 Null (3 :: int) Null),
     avl_numnodes = 3\<rparr>" "[1]" 2 "[3]"] by (simp add: avl_inv_def)



lemma avl_create_ok [simp]: "avl_inv avl_create" "avl_elems avl_create = []"
  by (simp_all add: avl_create_def avl_inv_def)

lemma avl_drain_all:
  assumes "avl_inv t"
  shows "fst (avl_drain t Cookie_NULL) = postorder (avl_root t)"
    and "avl_root (snd (avl_drain t Cookie_NULL)) = Null"
    and "avl_numnodes (snd (avl_drain t Cookie_NULL)) = 0"
proof -
  have "fst (avl_drain t Cookie_NULL) = postorder (avl_root t) \<and>
    avl_root (snd (avl_drain t Cookie_NULL)) = Null \<and>
    avl_numnodes (snd (avl_drain t Cookie_NULL)) = 0"
  proof (cases "avl_root t = Null")
    case True
    with assms show ?thesis by (simp add: avl_drain.simps avl_first_def avl_inv_def)
  next
    case False
    obtain m q where pf: "avl_post_first (avl_root t) [] = (m, q)" by fastforce
    then obtain b l y r where m: "m = Node b l y r"
      using avl_post_first_zip [OF pf False] by (cases m) auto
    have d: "avl_drain t Cookie_NULL = map_prod ((#) y) id (avl_drain t (Cookie q))"
      using pf m False
      by (auto simp: avl_drain.simps [of t Cookie_NULL] avl_first_def avl_post_first_def split: prod.splits)
    from avl_drain_subtree [OF _ False pf [unfolded m], of t] assms obtain t' where
      "y # fst (avl_drain t (Cookie q)) = postorder (avl_root t) @ fst (avl_drain t' (Cookie []))"
      "snd (avl_drain t (Cookie q)) = snd (avl_drain t' (Cookie []))" "avl_root t' \<noteq> Null"
      by (auto simp: avl_inv_def)
    with d show ?thesis by (simp add: avl_drain_end mset_postorder)
  qed
  then show "fst (avl_drain t Cookie_NULL) = postorder (avl_root t)"
    and "avl_root (snd (avl_drain t Cookie_NULL)) = Null"
    and "avl_numnodes (snd (avl_drain t Cookie_NULL)) = 0" by simp_all
qed

text \<open>
  C23. Draining a balanced tree with \<open>avl_destroy_nodes\<close> returns every element exactly once, in
  post-order, and leaves the empty tree.
\<close>

theorem avl_drain_correct:
  assumes "avl_inv t"
  shows "fst (avl_drain t Cookie_NULL) = postorder (avl_root t) \<and>
    mset (fst (avl_drain t Cookie_NULL)) = mset (avl_elems t) \<and>
    avl_root (snd (avl_drain t Cookie_NULL)) = Null \<and>
    avl_numnodes (snd (avl_drain t Cookie_NULL)) = 0"
  using avl_drain_all [OF assms] by (simp add: mset_postorder)

theorem avl_drain_correct_witness:
  "fst (avl_drain \<lparr>avl_root = Node 0 (Node 0 Null 1 Null) 2 (Node 0 Null (3 :: int) Null),
     avl_numnodes = 3\<rparr> Cookie_NULL) = [1, 3, 2]"
  using avl_drain_correct [of "\<lparr>avl_root = Node 0 (Node 0 Null 1 Null) 2 (Node 0 Null (3 :: int) Null),
     avl_numnodes = 3\<rparr>"] by (simp add: avl_inv_def)

end
