(* ===== verification/Extents.thy ===== *)
theory Extents
  imports Prelude
begin

text \<open>
  Sets of 64-bit offsets kept by an extent store: the interface between the range tree and the
  code that keeps space in one (space maps, reference trees). \<open>extent_set\<close> states what the
  store promises; the lemmas in it are what its clients use.
\<close>

section \<open>Intervals of words\<close>

lemma unat_u64_less: "unat (x :: u64) < 2 ^ 64"
  using unsigned_less [of x, where ?'a = nat] by simp

lemma unat_image_ivl: "unat ` {a ..< b} = {unat a ..< unat (b :: u64)}"
proof
  show "unat ` {a ..< b} \<subseteq> {unat a ..< unat b}" by (auto simp: word_le_nat_alt word_less_nat_alt)
  show "{unat a ..< unat b} \<subseteq> unat ` {a ..< b}"
  proof
    fix n assume n: "n \<in> {unat a ..< unat b}"
    then have "n < 2 ^ 64" using unat_u64_less [of b] by simp
    then have "unat (of_nat n :: u64) = n" by (simp add: unat_of_nat)
    with n show "n \<in> unat ` {a ..< b}"
      by (intro image_eqI [of _ _ "of_nat n"]) (auto simp: word_le_nat_alt word_less_nat_alt)
  qed
qed

lemma card_ivl: "card {a ..< b :: u64} = unat b - unat a"
proof -
  have "card (unat ` {a ..< b}) = card {a ..< b}" by (rule card_image) (auto simp: inj_on_def unsigned_word_eqI)
  then show ?thesis by (simp add: unat_image_ivl)
qed

lemma card_extent: "s < s + z \<Longrightarrow> card {s ..< s + z :: u64} = unat z"
  using unat_add_no_wrap [of s z] by (simp add: card_ivl)

section \<open>The interface\<close>

locale extent_set =
  fixes inv :: "'t \<Rightarrow> bool"
    and cover :: "'t \<Rightarrow> u64 set"
    and space :: "'t \<Rightarrow> u64"
    and add :: "'t \<Rightarrow> u64 \<Rightarrow> u64 \<Rightarrow> 'e + 't"
    and remove :: "'t \<Rightarrow> u64 \<Rightarrow> u64 \<Rightarrow> 'e + 't"
  assumes add_ok: "inv t \<Longrightarrow> s < s + z \<Longrightarrow> {s ..< s + z} \<inter> cover t = {} \<Longrightarrow>
      \<exists>t'. add t s z = Inr t' \<and> inv t' \<and> cover t' = cover t \<union> {s ..< s + z}"
    and remove_ok: "inv t \<Longrightarrow> s < s + z \<Longrightarrow> {s ..< s + z} \<subseteq> cover t \<Longrightarrow>
      \<exists>t'. remove t s z = Inr t' \<and> inv t' \<and> cover t' = cover t - {s ..< s + z}"
    and space_card: "inv t \<Longrightarrow> unat (space t) = card (cover t)"
begin

text \<open>Adding an extent inside a region of \<open>n\<close> offsets never takes the space above \<open>n\<close>.\<close>

lemma space_bound:
  assumes "inv t" and "s < s + z" and "a < a + n"
    and "cover t \<subseteq> {a ..< a + n}" and "{s ..< s + z} \<subseteq> {a ..< a + n}" and "{s ..< s + z} \<inter> cover t = {}"
  shows "space t + z \<le> n"
proof -
  have "card (cover t) + card {s ..< s + z} = card (cover t \<union> {s ..< s + z})"
    using assms(6) by (intro card_Un_disjoint [symmetric]) auto
  also have "\<dots> \<le> card {a ..< a + n}" using assms(4,5) by (intro card_mono) auto
  finally have "unat (space t) + unat z \<le> unat n"
    using assms(2,3) by (simp add: card_extent space_card [OF assms(1)])
  moreover from this have "unat (space t + z) = unat (space t) + unat z"
    using unat_u64_less [of n] by (simp add: unat_word_ariths)
  ultimately show ?thesis by (simp add: word_le_nat_alt)
qed

lemma space_0_iff: "inv t \<Longrightarrow> space t = 0 \<longleftrightarrow> cover t = {}"
  using space_card [of t] by (metis card_0_eq finite unat_eq_zero)

lemma space_eq_card: "inv t \<Longrightarrow> cover t = C \<Longrightarrow> space t = of_nat (card C)"
  by (metis space_card of_nat_unat unsigned_word_eqI ucast_id)

end

end
