(* ===== verification/RangeTree.thy ===== *)
theory RangeTree
  imports Avl Extents
begin

text \<open>
  Range trees (\<^verbatim>\<open>src/zfs/module/zfs/range_tree.c\<close>): sets of 64-bit offsets kept as an AVL
  tree of disjoint segments with a histogram of segment sizes and the total space. Metaslabs
  keep their free and allocated space in them.

  Offsets, sizes and counters are 64-bit words. A failed \<open>VERIFY\<close> and the panic of
  \<open>zfs_panic_recover\<close> are error values; with the \<open>zfs_recover\<close> tunable set the latter is a
  warning and the caller goes on. The callbacks of \<open>range_tree_ops_t\<close> are recorded in the
  order of their calls, with the segment as it was at the call. \<open>kmem_cache_alloc\<close> and
  \<open>kmem_cache_free\<close> of segments have no counterpart: a segment is a value of the tree.
\<close>

section \<open>State\<close>

record range_seg =
  rs_start :: u64
  rs_end :: u64

datatype rtop =
    Rtop_create
  | Rtop_destroy
  | Rtop_add range_seg
  | Rtop_remove range_seg
  | Rtop_vacate

record range_tree =
  rt_root :: "range_seg avl_tree"
  rt_space :: u64
  rt_ops :: bool
  rt_histogram :: "u64 list"
  rt_calls :: "rtop list"

datatype rt_error =
    Verify_size
  | Verify_overlap
  | Verify_space
  | Panic_allocated
  | Panic_free
  | Panic_verify

text \<open>\<open>RANGE_TREE_HISTOGRAM_SIZE\<close>\<close>

definition range_tree_histogram_size :: nat where
  "range_tree_histogram_size = 64"

section \<open>Operations\<close>

text \<open>\<open>highbit64\<close>: the position of the highest set bit, counted from 1; 0 for 0.\<close>

fun fls :: "nat \<Rightarrow> nat" where
  "fls n = (if n = 0 then 0 else Suc (fls (n div 2)))"

declare fls.simps [simp del]

definition highbit64 :: "u64 \<Rightarrow> nat" where
  "highbit64 x = fls (unat x)"

definition range_tree_seg_compare :: "range_seg compar" where
  "range_tree_seg_compare r1 r2 =
     (if rs_start r1 < rs_start r2 then (if rs_end r1 > rs_start r2 then 0 else -1)
      else if rs_start r1 > rs_start r2 then (if rs_start r1 < rs_end r2 then 0 else 1)
      else 0)"

definition rt_call :: "range_tree \<Rightarrow> rtop \<Rightarrow> range_tree" where
  "rt_call rt c = (if rt_ops rt then rt\<lparr>rt_calls := rt_calls rt @ [c]\<rparr> else rt)"

definition rs_bucket :: "range_seg \<Rightarrow> nat" where
  "rs_bucket rs = (let size = rs_end rs - rs_start rs in highbit64 size - 1)"

definition range_tree_stat_incr :: "range_tree \<Rightarrow> range_seg \<Rightarrow> range_tree" where
  "range_tree_stat_incr rt rs =
     (let idx = rs_bucket rs
      in rt\<lparr>rt_histogram := (rt_histogram rt)[idx := rt_histogram rt ! idx + 1]\<rparr>)"

definition range_tree_stat_decr :: "range_tree \<Rightarrow> range_seg \<Rightarrow> range_tree" where
  "range_tree_stat_decr rt rs =
     (let idx = rs_bucket rs
      in rt\<lparr>rt_histogram := (rt_histogram rt)[idx := rt_histogram rt ! idx - 1]\<rparr>)"

text \<open>
  \<open>range_tree_stat_verify\<close>: whether recomputing the histogram from the segments, in tree
  order, gives the one that is kept.
\<close>

fun range_tree_hist :: "range_seg list \<Rightarrow> u64 list \<Rightarrow> u64 list" where
  "range_tree_hist [] hist = hist"
| "range_tree_hist (rs # rest) hist =
     (let idx = rs_bucket rs in range_tree_hist rest (hist[idx := hist ! idx + 1]))"

definition range_tree_stat_verify :: "range_tree \<Rightarrow> bool" where
  "range_tree_stat_verify rt \<longleftrightarrow>
     range_tree_hist (avl_for_each (rt_root rt)) (replicate range_tree_histogram_size 0)
       = rt_histogram rt"

definition range_tree_create :: "bool \<Rightarrow> range_tree" where
  "range_tree_create ops =
     (let rt = \<lparr>rt_root = avl_create, rt_space = 0, rt_ops = ops,
               rt_histogram = replicate range_tree_histogram_size 0, rt_calls = []\<rparr>
      in rt_call rt Rtop_create)"

definition range_tree_destroy :: "range_tree \<Rightarrow> rt_error + range_tree" where
  "range_tree_destroy rt =
     (if rt_space rt \<noteq> 0 then Inl Verify_space else Inr (rt_call rt Rtop_destroy))"

definition range_tree_add :: "bool \<Rightarrow> range_tree \<Rightarrow> u64 \<Rightarrow> u64 \<Rightarrow> rt_error + range_tree" where
  "range_tree_add zfs_recover rt start sz =
     (let end = start + sz
      in if sz = 0 then Inl Verify_size
         else case avl_find range_tree_seg_compare (rt_root rt) \<lparr>rs_start = start, rs_end = end\<rparr> of
           Inl rs \<Rightarrow>
             if rs_start rs \<le> start \<and> rs_end rs \<ge> end
             then (if zfs_recover then Inr rt else Inl Panic_allocated)
             else Inl Verify_overlap
         | Inr whr \<Rightarrow>
             (let rs_before = avl_nearest_data whr C0;
                  rs_after = avl_nearest_data whr C1;
                  merge_before = (rs_before \<noteq> None \<and> rs_end (the rs_before) = start);
                  merge_after = (rs_after \<noteq> None \<and> rs_start (the rs_after) = end);
                  (rt, rs) =
                    (if merge_before \<and> merge_after then
                       (let b = the rs_before; a = the rs_after;
                            rt = rt\<lparr>rt_root := avl_remove (rt_root rt) b\<rparr>;
                            rt = rt_call rt (Rtop_remove b);
                            rt = rt_call rt (Rtop_remove a);
                            rt = range_tree_stat_decr rt b;
                            rt = range_tree_stat_decr rt a;
                            rs = a\<lparr>rs_start := rs_start b\<rparr>
                        in (rt\<lparr>rt_root := avl_store (rt_root rt) a rs\<rparr>, rs))
                     else if merge_before then
                       (let b = the rs_before;
                            rt = rt_call rt (Rtop_remove b);
                            rt = range_tree_stat_decr rt b;
                            rs = b\<lparr>rs_end := end\<rparr>
                        in (rt\<lparr>rt_root := avl_store (rt_root rt) b rs\<rparr>, rs))
                     else if merge_after then
                       (let a = the rs_after;
                            rt = rt_call rt (Rtop_remove a);
                            rt = range_tree_stat_decr rt a;
                            rs = a\<lparr>rs_start := start\<rparr>
                        in (rt\<lparr>rt_root := avl_store (rt_root rt) a rs\<rparr>, rs))
                     else
                       (let rs = \<lparr>rs_start = start, rs_end = end\<rparr>
                        in (rt\<lparr>rt_root := avl_insert (rt_root rt) rs whr\<rparr>, rs)));
                  rt = rt_call rt (Rtop_add rs);
                  rt = range_tree_stat_incr rt rs
              in Inr (rt\<lparr>rt_space := rt_space rt + sz\<rparr>)))"

definition range_tree_remove :: "bool \<Rightarrow> range_tree \<Rightarrow> u64 \<Rightarrow> u64 \<Rightarrow> rt_error + range_tree" where
  "range_tree_remove zfs_recover rt start sz =
     (let end = start + sz
      in if sz = 0 then Inl Verify_size
         else if \<not> sz \<le> rt_space rt then Inl Verify_space
         else case avl_find range_tree_seg_compare (rt_root rt) \<lparr>rs_start = start, rs_end = end\<rparr> of
           Inr whr \<Rightarrow> if zfs_recover then Inr rt else Inl Panic_free
         | Inl rs \<Rightarrow>
             if \<not> rs_start rs \<le> start \<or> \<not> rs_end rs \<ge> end then Inl Verify_overlap
             else
               (let left_over = (rs_start rs \<noteq> start);
                    right_over = (rs_end rs \<noteq> end);
                    rt = range_tree_stat_decr rt rs;
                    rt = rt_call rt (Rtop_remove rs);
                    (rt, rs) =
                      (if left_over \<and> right_over then
                         (let newseg = \<lparr>rs_start = end, rs_end = rs_end rs\<rparr>;
                              rt = range_tree_stat_incr rt newseg;
                              rs' = rs\<lparr>rs_end := start\<rparr>;
                              rt = rt\<lparr>rt_root := avl_store (rt_root rt) rs rs'\<rparr>;
                              rt = rt\<lparr>rt_root := avl_insert_here (rt_root rt) newseg rs' C1\<rparr>
                          in (rt_call rt (Rtop_add newseg), Some rs'))
                       else if left_over then
                         (let rs' = rs\<lparr>rs_end := start\<rparr>
                          in (rt\<lparr>rt_root := avl_store (rt_root rt) rs rs'\<rparr>, Some rs'))
                       else if right_over then
                         (let rs' = rs\<lparr>rs_start := end\<rparr>
                          in (rt\<lparr>rt_root := avl_store (rt_root rt) rs rs'\<rparr>, Some rs'))
                       else (rt\<lparr>rt_root := avl_remove (rt_root rt) rs\<rparr>, None));
                    rt = (case rs of None \<Rightarrow> rt
                          | Some rs \<Rightarrow> rt_call (range_tree_stat_incr rt rs) (Rtop_add rs))
                in Inr (rt\<lparr>rt_space := rt_space rt - sz\<rparr>)))"

definition range_tree_find_impl :: "range_tree \<Rightarrow> u64 \<Rightarrow> u64 \<Rightarrow> rt_error + range_seg option" where
  "range_tree_find_impl rt start sz =
     (let end = start + sz
      in if sz = 0 then Inl Verify_size
         else case avl_find range_tree_seg_compare (rt_root rt) \<lparr>rs_start = start, rs_end = end\<rparr> of
           Inl rs \<Rightarrow> Inr (Some rs) | Inr whr \<Rightarrow> Inr None)"

definition range_tree_find :: "range_tree \<Rightarrow> u64 \<Rightarrow> u64 \<Rightarrow> rt_error + range_seg option" where
  "range_tree_find rt start sz =
     (case range_tree_find_impl rt start sz of
        Inl e \<Rightarrow> Inl e
      | Inr None \<Rightarrow> Inr None
      | Inr (Some rs) \<Rightarrow>
          if rs_start rs \<le> start \<and> rs_end rs \<ge> start + sz then Inr (Some rs) else Inr None)"

definition range_tree_verify :: "range_tree \<Rightarrow> u64 \<Rightarrow> u64 \<Rightarrow> rt_error + unit" where
  "range_tree_verify rt off sz =
     (case range_tree_find rt off sz of
        Inl e \<Rightarrow> Inl e
      | Inr (Some rs) \<Rightarrow> Inl Panic_verify
      | Inr None \<Rightarrow> Inr ())"

definition range_tree_contains :: "range_tree \<Rightarrow> u64 \<Rightarrow> u64 \<Rightarrow> rt_error + bool" where
  "range_tree_contains rt start sz =
     (case range_tree_find rt start sz of Inl e \<Rightarrow> Inl e | Inr r \<Rightarrow> Inr (r \<noteq> None))"

text \<open>The loop of \<open>range_tree_clear\<close>; \<open>None\<close> would be a loop that never ends.\<close>

partial_function (option) range_tree_clear ::
  "bool \<Rightarrow> range_tree \<Rightarrow> u64 \<Rightarrow> u64 \<Rightarrow> (rt_error + range_tree) option" where
  "range_tree_clear zfs_recover rt start sz =
     (case range_tree_find_impl rt start sz of
        Inl e \<Rightarrow> Some (Inl e)
      | Inr None \<Rightarrow> Some (Inr rt)
      | Inr (Some rs) \<Rightarrow>
          (let free_start = max (rs_start rs) start;
               free_end = min (rs_end rs) (start + sz)
           in case range_tree_remove zfs_recover rt free_start (free_end - free_start) of
                Inl e \<Rightarrow> Some (Inl e)
              | Inr rt' \<Rightarrow> range_tree_clear zfs_recover rt' start sz))"

definition range_tree_swap :: "range_tree \<Rightarrow> range_tree \<Rightarrow> range_tree \<times> range_tree" where
  "range_tree_swap rtsrc rtdst = (let rt = rtsrc; rtsrc = rtdst; rtdst = rt in (rtsrc, rtdst))"

text \<open>
  \<open>range_tree_vacate\<close> and \<open>range_tree_walk\<close>: the new tree and the \<open>(start, size)\<close> arguments of
  the calls of \<open>func\<close>, in order.
\<close>

definition rs_extent :: "range_seg \<Rightarrow> u64 \<times> u64" where
  "rs_extent rs = (rs_start rs, rs_end rs - rs_start rs)"

definition range_tree_vacate :: "range_tree \<Rightarrow> range_tree \<times> (u64 \<times> u64) list" where
  "range_tree_vacate rt =
     (let rt = rt_call rt Rtop_vacate
      in case avl_drain (rt_root rt) Cookie_NULL of (segs, root) \<Rightarrow>
        (rt\<lparr>rt_root := root, rt_histogram := replicate range_tree_histogram_size 0, rt_space := 0\<rparr>,
         map rs_extent segs))"

definition range_tree_space :: "range_tree \<Rightarrow> u64" where
  "range_tree_space rt = rt_space rt"

definition range_tree_walk :: "range_tree \<Rightarrow> (u64 \<times> u64) list" where
  "range_tree_walk rt = map rs_extent (avl_for_each (rt_root rt))"


section \<open>Segments as sets of offsets\<close>

definition seg_cover :: "range_seg \<Rightarrow> u64 set" where
  "seg_cover s = {rs_start s ..< rs_end s}"

definition covers :: "range_seg list \<Rightarrow> u64 set" where
  "covers xs = (\<Union>s \<in> set xs. seg_cover s)"

abbreviation rt_segs :: "range_tree \<Rightarrow> range_seg list" where
  "rt_segs rt \<equiv> avl_elems (rt_root rt)"

text \<open>Non-empty segments in ascending order with a gap between neighbours.\<close>

definition segs_ok :: "range_seg list \<Rightarrow> bool" where
  "segs_ok xs \<longleftrightarrow>
     (\<forall>s \<in> set xs. rs_start s < rs_end s) \<and> sorted_wrt (\<lambda>a b. rs_end a < rs_start b) xs"

lemma segs_ok_simps [simp]:
  "segs_ok []"
  "segs_ok (s # xs) \<longleftrightarrow>
     rs_start s < rs_end s \<and> (\<forall>y \<in> set xs. rs_end s < rs_start y) \<and> segs_ok xs"
  "segs_ok (xs @ ys) \<longleftrightarrow>
     segs_ok xs \<and> segs_ok ys \<and> (\<forall>x \<in> set xs. \<forall>y \<in> set ys. rs_end x < rs_start y)"
  by (auto simp: segs_ok_def sorted_wrt_append)

lemma covers_simps [simp]:
  "covers [] = {}"
  "covers (s # xs) = seg_cover s \<union> covers xs"
  "covers (xs @ ys) = covers xs \<union> covers ys"
  by (auto simp: covers_def)

lemma segs_ok_nonempty: "segs_ok xs \<Longrightarrow> s \<in> set xs \<Longrightarrow> rs_start s < rs_end s"
  by (simp add: segs_ok_def)

lemma segs_ok_distinct: "segs_ok xs \<Longrightarrow> distinct xs"
proof (induction xs)
  case (Cons s xs)
  then have "s \<notin> set xs" by (auto dest: order.strict_trans)
  with Cons show ?case by simp
qed simp

text \<open>The comparison of a non-empty range with a segment: below, overlapping, above.\<close>

lemma seg_compare_iff:
  assumes "start < end" and "rs_start y < rs_end y"
  shows "range_tree_seg_compare \<lparr>rs_start = start, rs_end = end\<rparr> y > 0 \<longleftrightarrow> rs_end y \<le> start"
    and "range_tree_seg_compare \<lparr>rs_start = start, rs_end = end\<rparr> y < 0 \<longleftrightarrow> end \<le> rs_start y"
    and "range_tree_seg_compare \<lparr>rs_start = start, rs_end = end\<rparr> y = 0 \<longleftrightarrow>
      start < rs_end y \<and> rs_start y < end"
  using assms by (auto simp: range_tree_seg_compare_def)

lemma seg_compare_range: "range_tree_seg_compare x y \<in> {-1, 0, 1}"
  by (simp add: range_tree_seg_compare_def)

lemma seg_compare_mono:
  assumes "start < end" and "rs_start x < rs_end x" and "rs_start y < rs_end y"
    and "rs_end x < rs_start y"
  shows "range_tree_seg_compare \<lparr>rs_start = start, rs_end = end\<rparr> y
    \<le> range_tree_seg_compare \<lparr>rs_start = start, rs_end = end\<rparr> x"
proof -
  let ?c = "range_tree_seg_compare \<lparr>rs_start = start, rs_end = end\<rparr>"
  have "rs_end y \<le> start \<Longrightarrow> rs_end x \<le> start" and "end \<le> rs_start x \<Longrightarrow> end \<le> rs_start y"
    using assms by (meson order.trans order_less_imp_le)+
  then have up: "?c y > 0 \<Longrightarrow> ?c x > 0" and down: "?c x < 0 \<Longrightarrow> ?c y < 0"
    using assms(1-3) by (simp_all add: seg_compare_iff)
  consider "?c y = -1" | "?c y = 0" | "?c y = 1" using seg_compare_range by blast
  then show ?thesis
  proof cases
    case 1
    then show ?thesis using seg_compare_range [of "\<lparr>rs_start = start, rs_end = end\<rparr>" x] by auto
  next
    case 2
    then show ?thesis using down by linarith
  next
    case 3
    then show ?thesis using up by linarith
  qed
qed

lemma segs_ok_cmp_mono:
  assumes "start < end"
  shows "segs_ok xs \<Longrightarrow> cmp_mono (range_tree_seg_compare \<lparr>rs_start = start, rs_end = end\<rparr>) xs"
  by (induction xs) (auto intro: seg_compare_mono [OF assms] dest: segs_ok_nonempty)

text \<open>Because neighbours never touch, a covered range lies in one segment.\<close>

lemma covers_one_seg:
  assumes "segs_ok xs" and "start < end"
  shows "{start ..< end} \<subseteq> covers xs \<longleftrightarrow> (\<exists>s \<in> set xs. rs_start s \<le> start \<and> end \<le> rs_end s)"
proof
  assume sub: "{start ..< end} \<subseteq> covers xs"
  then obtain s where s: "s \<in> set xs" "rs_start s \<le> start" "start < rs_end s"
    using assms(2) by (force simp: covers_def seg_cover_def)
  have "end \<le> rs_end s"
  proof (rule ccontr)
    assume "\<not> end \<le> rs_end s"
    then have "rs_end s \<in> {start ..< end}" using s by auto
    with sub obtain s' where s': "s' \<in> set xs" "rs_start s' \<le> rs_end s" "rs_end s < rs_end s'"
      by (force simp: covers_def seg_cover_def)
    then have "s \<noteq> s'" by auto
    with s(1) s'(1) assms(1) have "rs_end s < rs_start s' \<or> rs_end s' < rs_start s"
      unfolding segs_ok_def by (metis in_set_conv_nth linorder_neqE_nat sorted_wrt_nth_less)
    with s s' segs_ok_nonempty [OF assms(1) s(1)] show False by auto
  qed
  with s show "\<exists>s \<in> set xs. rs_start s \<le> start \<and> end \<le> rs_end s" by blast
qed (force simp: covers_def seg_cover_def)

lemma covers_disjoint_iff:
  assumes "start < end"
  shows "{start ..< end} \<inter> covers xs = {} \<longleftrightarrow>
    (\<forall>s \<in> set xs. rs_start s < rs_end s \<longrightarrow> rs_end s \<le> start \<or> end \<le> rs_start s)"
proof -
  have "{start ..< end} \<inter> seg_cover s = {} \<longleftrightarrow>
      (rs_start s < rs_end s \<longrightarrow> rs_end s \<le> start \<or> end \<le> rs_start s)" for s
  proof
    assume d: "{start ..< end} \<inter> seg_cover s = {}"
    show "rs_start s < rs_end s \<longrightarrow> rs_end s \<le> start \<or> end \<le> rs_start s"
    proof (rule ccontr)
      assume "\<not> ?thesis"
      then have "max start (rs_start s) \<in> {start ..< end} \<inter> seg_cover s"
        using assms by (auto simp: seg_cover_def)
      with d show False by blast
    qed
  qed (auto simp: seg_cover_def)
  then show ?thesis by (auto simp: covers_def)
qed

section \<open>Histogram, space and callbacks as functions of the segments\<close>

definition seg_hist :: "range_seg multiset \<Rightarrow> u64 list" where
  "seg_hist M = map (\<lambda>i. of_nat (size (filter_mset (\<lambda>s. rs_bucket s = i) M))) [0 ..< 64]"

definition seg_space :: "range_seg multiset \<Rightarrow> u64" where
  "seg_space M = (\<Sum>s \<in># M. rs_end s - rs_start s)"

lemma fls_le: "n < 2 ^ k \<Longrightarrow> fls n \<le> k"
proof (induction k arbitrary: n)
  case (Suc k)
  then have "fls (n div 2) \<le> k" by simp
  then show ?case by (subst fls.simps) simp
qed (simp add: fls.simps)

lemma rs_bucket_less: "rs_bucket s < 64"
proof -
  have "fls (unat (rs_end s - rs_start s)) \<le> 64"
    by (rule fls_le) (use unsigned_less [of "rs_end s - rs_start s"] in simp)
  then show ?thesis by (simp add: rs_bucket_def highbit64_def)
qed

lemma seg_hist_incr: "(seg_hist M)[rs_bucket s := seg_hist M ! rs_bucket s + 1] = seg_hist (add_mset s M)"
  by (rule nth_equalityI) (auto simp: seg_hist_def rs_bucket_less nth_list_update)

lemma seg_hist_decr:
  assumes "s \<in># M"
  shows "(seg_hist M)[rs_bucket s := seg_hist M ! rs_bucket s - 1] = seg_hist (M - {#s#})"
proof -
  obtain N where "M = add_mset s N" using assms by (meson multi_member_split)
  then show ?thesis
    by (auto simp: seg_hist_def rs_bucket_less nth_list_update intro!: nth_equalityI)
qed

text \<open>
  What a client that mirrors the tree through the callbacks holds: \<open>rtop_add\<close> adds the
  segment, \<open>rtop_remove\<close> takes it out, \<open>rtop_vacate\<close> empties the mirror.
\<close>

fun rtop_replay :: "rtop \<Rightarrow> range_seg multiset \<Rightarrow> range_seg multiset" where
  "rtop_replay (Rtop_add s) M = add_mset s M"
| "rtop_replay (Rtop_remove s) M = M - {#s#}"
| "rtop_replay Rtop_vacate M = {#}"
| "rtop_replay _ M = M"

definition rt_mirror :: "range_tree \<Rightarrow> range_seg multiset" where
  "rt_mirror rt = fold rtop_replay (rt_calls rt) {#}"

text \<open>The representation invariant.\<close>

definition rt_inv :: "range_tree \<Rightarrow> bool" where
  "rt_inv rt \<longleftrightarrow>
     avl_inv (rt_root rt) \<and> segs_ok (rt_segs rt) \<and>
     rt_space rt = seg_space (mset (rt_segs rt)) \<and>
     rt_histogram rt = seg_hist (mset (rt_segs rt)) \<and>
     (rt_ops rt \<longrightarrow> rt_mirror rt = mset (rt_segs rt))"


lemma rt_call_fields [simp]:
  "rt_root (rt_call rt c) = rt_root rt"
  "rt_space (rt_call rt c) = rt_space rt"
  "rt_ops (rt_call rt c) = rt_ops rt"
  "rt_histogram (rt_call rt c) = rt_histogram rt"
  "rt_mirror (rt_call rt c) = (if rt_ops rt then rtop_replay c (rt_mirror rt) else rt_mirror rt)"
  by (simp_all add: rt_call_def rt_mirror_def)

lemma range_tree_stat_fields [simp]:
  "rt_root (range_tree_stat_incr rt rs) = rt_root rt"
  "rt_space (range_tree_stat_incr rt rs) = rt_space rt"
  "rt_ops (range_tree_stat_incr rt rs) = rt_ops rt"
  "rt_mirror (range_tree_stat_incr rt rs) = rt_mirror rt"
  "rt_root (range_tree_stat_decr rt rs) = rt_root rt"
  "rt_space (range_tree_stat_decr rt rs) = rt_space rt"
  "rt_ops (range_tree_stat_decr rt rs) = rt_ops rt"
  "rt_mirror (range_tree_stat_decr rt rs) = rt_mirror rt"
  by (simp_all add: range_tree_stat_incr_def range_tree_stat_decr_def rt_mirror_def Let_def)

lemma rt_mirror_update [simp]:
  "rt_mirror (rt\<lparr>rt_root := r\<rparr>) = rt_mirror rt"
  "rt_mirror (rt\<lparr>rt_space := sp\<rparr>) = rt_mirror rt"
  "rt_mirror (rt\<lparr>rt_histogram := h\<rparr>) = rt_mirror rt"
  by (simp_all add: rt_mirror_def)

lemma range_tree_stat_hist:
  "rt_histogram rt = seg_hist M \<Longrightarrow> rt_histogram (range_tree_stat_incr rt rs) = seg_hist (add_mset rs M)"
  "rt_histogram rt = seg_hist M \<Longrightarrow> rs \<in># M \<Longrightarrow>
     rt_histogram (range_tree_stat_decr rt rs) = seg_hist (M - {#rs#})"
  by (simp_all add: range_tree_stat_incr_def range_tree_stat_decr_def Let_def seg_hist_incr seg_hist_decr)

lemma seg_space_simps [simp]:
  "seg_space {#} = 0"
  "seg_space (add_mset s M) = rs_end s - rs_start s + seg_space M"
  "seg_space (M + N) = seg_space M + seg_space N"
  by (simp_all add: seg_space_def)

lemma rt_invD:
  assumes "rt_inv rt"
  shows "avl_inv (rt_root rt)" "segs_ok (rt_segs rt)" "distinct (rt_segs rt)"
    "rt_space rt = seg_space (mset (rt_segs rt))" "rt_histogram rt = seg_hist (mset (rt_segs rt))"
    "rt_ops rt \<Longrightarrow> rt_mirror rt = mset (rt_segs rt)"
  using assms by (auto simp: rt_inv_def intro: segs_ok_distinct)

section \<open>Searching\<close>

lemma range_tree_lookup_Inl:
  assumes "rt_inv rt" and "start < end"
    and "avl_find range_tree_seg_compare (rt_root rt) \<lparr>rs_start = start, rs_end = end\<rparr> = Inl rs"
  shows "rs \<in> set (rt_segs rt) \<and> start < rs_end rs \<and> rs_start rs < end"
proof -
  have "rs \<in> set (rt_segs rt)" "range_tree_seg_compare \<lparr>rs_start = start, rs_end = end\<rparr> rs = 0"
    using avlt.lookup_Inl [of "range_tree_seg_compare \<lparr>rs_start = start, rs_end = end\<rparr>" "rt_root rt" rs] assms(3)
    by (simp_all add: avl_find_def)
  with seg_compare_iff [OF assms(2)] segs_ok_nonempty [OF rt_invD(2) [OF assms(1)]]
  show ?thesis by blast
qed

lemma range_tree_lookup_Inr:
  assumes "rt_inv rt" and "start < end"
    and "avl_find range_tree_seg_compare (rt_root rt) \<lparr>rs_start = start, rs_end = end\<rparr> = Inr whr"
  shows "avl_zip Null whr = avl_root (rt_root rt)"
    and "rt_segs rt = ix_before whr @ ix_after whr"
    and "\<forall>y \<in> set (ix_before whr). rs_end y \<le> start"
    and "\<forall>y \<in> set (ix_after whr). end \<le> rs_start y"
proof -
  let ?c = "range_tree_seg_compare \<lparr>rs_start = start, rs_end = end\<rparr>"
  have miss: "avl_lookup ?c (rt_root rt) = Inr whr" using assms(3) by (simp add: avl_find_def)
  show slot: "avl_zip Null whr = avl_root (rt_root rt)" using miss by (rule avlt.lookup_slot)
  then show e: "rt_segs rt = ix_before whr @ ix_after whr" by (rule avlt.slot_elems)
  have ok: "segs_ok (rt_segs rt)" using assms(1) by (rule rt_invD)
  have w: "(\<forall>y \<in> set (ix_before whr). ?c y > 0) \<and> (\<forall>y \<in> set (ix_after whr). ?c y < 0)"
    using segs_ok_cmp_mono [OF assms(2) ok] miss by (rule avlt.lookup_where)
  have "\<forall>y \<in> set (ix_before whr) \<union> set (ix_after whr). rs_start y < rs_end y"
    using ok e by (auto intro: segs_ok_nonempty)
  with w show "\<forall>y \<in> set (ix_before whr). rs_end y \<le> start"
    and "\<forall>y \<in> set (ix_after whr). end \<le> rs_start y"
    using seg_compare_iff [OF assms(2)] by auto
qed

lemma range_tree_lookup_disjoint:
  assumes "rt_inv rt" and "start < end"
  shows "(\<exists>whr. avl_find range_tree_seg_compare (rt_root rt) \<lparr>rs_start = start, rs_end = end\<rparr> = Inr whr)
    \<longleftrightarrow> {start ..< end} \<inter> covers (rt_segs rt) = {}"
proof (cases "avl_find range_tree_seg_compare (rt_root rt) \<lparr>rs_start = start, rs_end = end\<rparr>")
  case (Inl rs)
  with range_tree_lookup_Inl [OF assms Inl] segs_ok_nonempty [OF rt_invD(2) [OF assms(1)]]
  show ?thesis by (force simp: covers_disjoint_iff [OF assms(2)])
next
  case (Inr whr)
  have "\<forall>s \<in> set (rt_segs rt). rs_end s \<le> start \<or> end \<le> rs_start s"
    using range_tree_lookup_Inr [OF assms Inr] by auto
  with Inr show ?thesis by (simp add: covers_disjoint_iff [OF assms(2)])
qed

section \<open>Adding a range\<close>

lemma seg_cover_join: "a \<le> b \<Longrightarrow> b \<le> c \<Longrightarrow> {a ..< b} \<union> {b ..< c} = {a ..< (c :: u64)}"
  by (rule ivl_disj_un_two)

text \<open>
  The common end of the four branches of \<open>range_tree_add\<close>: from a tree that already holds the
  new or merged segment \<open>rs\<close> but whose histogram, mirror and space do not yet count it.
\<close>

lemma range_tree_add_finish:
  assumes "range_tree_add zr rt start sz = Inr (let rt' = range_tree_stat_incr (rt_call rtx (Rtop_add rs)) rs
      in rt'\<lparr>rt_space := rt_space rt' + sz\<rparr>)"
    and "avl_inv (rt_root rtx)" and "rt_segs rtx = xs @ rs # ys" and "segs_ok (xs @ rs # ys)"
    and "rt_histogram rtx = seg_hist (mset (xs @ ys))"
    and "rt_ops rtx = rt_ops rt" and "rt_ops rt \<Longrightarrow> rt_mirror rtx = mset (xs @ ys)"
    and "rt_space rtx + sz = seg_space (mset (xs @ rs # ys))"
    and "covers (xs @ rs # ys) = covers (rt_segs rt) \<union> {start ..< start + sz}"
  shows "\<exists>rt'. range_tree_add zr rt start sz = Inr rt' \<and> rt_inv rt' \<and> rt_ops rt' = rt_ops rt \<and>
    covers (rt_segs rt') = covers (rt_segs rt) \<union> {start ..< start + sz}"
  using assms by (simp add: rt_inv_def range_tree_stat_hist Let_def)

text \<open>A neighbour the new range does not merge with leaves a gap.\<close>

lemma seg_gap_after:
  assumes "segs_ok A" and "\<forall>y \<in> set A. e \<le> rs_start y"
    and "\<not> (first_opt A \<noteq> None \<and> rs_start (the (first_opt A)) = e)"
  shows "\<forall>y \<in> set A. e < rs_start y"
  using assms by (cases A) (auto dest: order.strict_trans)

lemma seg_gap_before:
  assumes "segs_ok B" and "\<forall>y \<in> set B. rs_end y \<le> s"
    and "\<not> (last_opt B \<noteq> None \<and> rs_end (the (last_opt B)) = s)"
  shows "\<forall>y \<in> set B. rs_end y < s"
  using assms by (cases B rule: rev_cases) (auto dest: segs_ok_nonempty order.strict_trans)

lemma range_tree_add_disjoint:
  assumes inv: "rt_inv rt" and less: "start < start + sz"
    and disj: "{start ..< start + sz} \<inter> covers (rt_segs rt) = {}"
  shows "\<exists>rt'. range_tree_add zr rt start sz = Inr rt' \<and> rt_inv rt' \<and> rt_ops rt' = rt_ops rt \<and>
    covers (rt_segs rt') = covers (rt_segs rt) \<union> {start ..< start + sz}"
proof -
  let ?e = "start + sz" and ?n = "\<lparr>rs_start = start, rs_end = start + sz\<rparr>"
  obtain w where f: "avl_find range_tree_seg_compare (rt_root rt) ?n = Inr w"
    using range_tree_lookup_disjoint [OF inv less] disj by auto
  note L = range_tree_lookup_Inr [OF inv less f]
  note I = rt_invD [OF inv]
  have sz: "sz \<noteq> 0" using less by auto
  have nb: "avl_nearest_data w C0 = last_opt (ix_before w)" "avl_nearest_data w C1 = first_opt (ix_after w)"
    by (simp_all add: avl_nearest_before avl_nearest_after)
  consider
      (both) B b a A where "ix_before w = B @ [b]" "rs_end b = start" "ix_after w = a # A" "rs_start a = ?e"
    | (before) B b where "ix_before w = B @ [b]" "rs_end b = start"
        "\<not> (first_opt (ix_after w) \<noteq> None \<and> rs_start (the (first_opt (ix_after w))) = ?e)"
    | (after) a A where "ix_after w = a # A" "rs_start a = ?e"
        "\<not> (last_opt (ix_before w) \<noteq> None \<and> rs_end (the (last_opt (ix_before w))) = start)"
    | (none) "\<not> (first_opt (ix_after w) \<noteq> None \<and> rs_start (the (first_opt (ix_after w))) = ?e)"
        "\<not> (last_opt (ix_before w) \<noteq> None \<and> rs_end (the (last_opt (ix_before w))) = start)"
    by (metis first_opt_SomeD last_opt_SomeD not_Some_eq option.sel)
  then show ?thesis
  proof cases
    case both
    let ?rs = "a\<lparr>rs_start := rs_start b\<rparr>" and ?r1 = "avl_remove (rt_root rt) b"
    let ?rt = "range_tree_stat_decr (range_tree_stat_decr (rt_call (rt_call (rt\<lparr>rt_root := ?r1\<rparr>)
      (Rtop_remove b)) (Rtop_remove a)) b) a"
    have segs: "rt_segs rt = B @ b # a # A" using L(2) both by simp
    have r1: "avl_elems ?r1 = B @ a # A" "avl_inv ?r1"
      using avlt.remove_elems [OF I(1,3) segs] avlt.remove_inv [OF I(1,3)] segs by auto
    moreover have "distinct (B @ a # A)" using I(3) segs by simp
    ultimately have r2: "avl_elems (avl_store ?r1 a ?rs) = B @ ?rs # A" "avl_inv (avl_store ?r1 a ?rs)"
      using avlt.store_elems [of ?r1 B a A ?rs] avlt.store_inv [of ?r1 a ?rs] by auto
    have ok: "segs_ok (B @ ?rs # A)" using I(2) segs both by (auto dest: order.strict_trans)
    show ?thesis
    proof (rule range_tree_add_finish [where rtx = "?rt\<lparr>rt_root := avl_store ?r1 a ?rs\<rparr>" and rs = ?rs])
      show "covers (B @ ?rs # A) = covers (rt_segs rt) \<union> {start ..< ?e}"
        using segs both less I(2) by (auto simp: seg_cover_def)
    qed (use f nb both sz r2 ok I segs in \<open>simp_all add: range_tree_add_def Let_def range_tree_stat_hist\<close>)
  next
    case before
    let ?rs = "b\<lparr>rs_end := ?e\<rparr>" and ?rt = "range_tree_stat_decr (rt_call rt (Rtop_remove b)) b"
    have segs: "rt_segs rt = B @ b # ix_after w" using L(2) before by simp
    have r: "avl_elems (avl_store (rt_root rt) b ?rs) = B @ ?rs # ix_after w" "avl_inv (avl_store (rt_root rt) b ?rs)"
      using avlt.store_elems [OF I(3) segs] avlt.store_inv [OF I(1,3)] segs by auto
    have gap: "\<forall>y \<in> set (ix_after w). ?e < rs_start y"
      using I(2) segs by (intro seg_gap_after [OF _ L(4) before(3)]) simp
    have ok: "segs_ok (B @ ?rs # ix_after w)"
      using I(2) segs before gap less by (auto dest: order.strict_trans)
    show ?thesis
    proof (rule range_tree_add_finish [where rtx = "?rt\<lparr>rt_root := avl_store (rt_root rt) b ?rs\<rparr>" and rs = ?rs])
      show "range_tree_add zr rt start sz = Inr (let rt' = range_tree_stat_incr (rt_call
          (?rt\<lparr>rt_root := avl_store (rt_root rt) b ?rs\<rparr>) (Rtop_add ?rs)) ?rs
          in rt'\<lparr>rt_space := rt_space rt' + sz\<rparr>)"
        using f nb before sz by (cases "ix_after w") (simp_all add: range_tree_add_def Let_def)
      show "covers (B @ ?rs # ix_after w) = covers (rt_segs rt) \<union> {start ..< ?e}"
        using segs before less I(2) by (auto simp: seg_cover_def)
    qed (use before r ok I segs in \<open>simp_all add: range_tree_stat_hist\<close>)
  next
    case after
    let ?rs = "a\<lparr>rs_start := start\<rparr>" and ?rt = "range_tree_stat_decr (rt_call rt (Rtop_remove a)) a"
    have segs: "rt_segs rt = ix_before w @ a # A" using L(2) after by simp
    have r: "avl_elems (avl_store (rt_root rt) a ?rs) = ix_before w @ ?rs # A" "avl_inv (avl_store (rt_root rt) a ?rs)"
      using avlt.store_elems [OF I(3) segs] avlt.store_inv [OF I(1,3)] segs by auto
    have gap: "\<forall>y \<in> set (ix_before w). rs_end y < start"
      using I(2) segs by (intro seg_gap_before [OF _ L(3) after(3)]) simp
    have ok: "segs_ok (ix_before w @ ?rs # A)"
      using I(2) segs after gap less by (auto dest: order.strict_trans)
    show ?thesis
    proof (rule range_tree_add_finish [where rtx = "?rt\<lparr>rt_root := avl_store (rt_root rt) a ?rs\<rparr>" and rs = ?rs])
      show "range_tree_add zr rt start sz = Inr (let rt' = range_tree_stat_incr (rt_call
          (?rt\<lparr>rt_root := avl_store (rt_root rt) a ?rs\<rparr>) (Rtop_add ?rs)) ?rs
          in rt'\<lparr>rt_space := rt_space rt' + sz\<rparr>)"
        using f nb after sz by (cases "ix_before w" rule: rev_cases) (simp_all add: range_tree_add_def Let_def)
      show "covers (ix_before w @ ?rs # A) = covers (rt_segs rt) \<union> {start ..< ?e}"
        using segs after less I(2) by (auto simp: seg_cover_def)
    qed (use after r ok I segs in \<open>simp_all add: range_tree_stat_hist\<close>)
  next
    case none
    have gaps: "\<forall>y \<in> set (ix_before w). rs_end y < start" "\<forall>y \<in> set (ix_after w). ?e < rs_start y"
      using I(2) L(2) seg_gap_before [OF _ L(3) none(2)] seg_gap_after [OF _ L(4) none(1)] by simp_all
    have ok: "segs_ok (ix_before w @ ?n # ix_after w)"
      using I(2) L(2) gaps less by (auto dest: order.strict_trans)
    have r: "avl_elems (avl_insert (rt_root rt) ?n w) = ix_before w @ ?n # ix_after w" "avl_inv (avl_insert (rt_root rt) ?n w)"
      using avlt.insert_elems [OF I(1) L(1)] avlt.insert_inv [OF I(1) L(1)] by auto
    show ?thesis
    proof (rule range_tree_add_finish [where rtx = "rt\<lparr>rt_root := avl_insert (rt_root rt) ?n w\<rparr>" and rs = ?n])
      show "range_tree_add zr rt start sz = Inr (let rt' = range_tree_stat_incr (rt_call
          (rt\<lparr>rt_root := avl_insert (rt_root rt) ?n w\<rparr>) (Rtop_add ?n)) ?n
          in rt'\<lparr>rt_space := rt_space rt' + sz\<rparr>)"
        using f nb none sz
        by (cases "ix_before w" rule: rev_cases; cases "ix_after w") (simp_all add: range_tree_add_def Let_def)
      show "covers (ix_before w @ ?n # ix_after w) = covers (rt_segs rt) \<union> {start ..< ?e}"
        using L(2) by (auto simp: seg_cover_def)
    qed (use r ok I L(2) in simp_all)
  qed
qed


section \<open>Space\<close>

lemma seg_sizes_bound:
  assumes "segs_ok xs" and "\<forall>s \<in> set xs. lo \<le> unat (rs_start s)" and "lo < 2 ^ 64"
  shows "lo + (\<Sum>s \<leftarrow> xs. unat (rs_end s) - unat (rs_start s)) < 2 ^ 64"
  using assms
proof (induction xs arbitrary: lo)
  case (Cons s xs)
  have "unat (rs_end s) < 2 ^ 64" using unsigned_less [of "rs_end s"] by simp
  moreover have "\<forall>y \<in> set xs. unat (rs_end s) \<le> unat (rs_start y)"
    using Cons.prems(1) by (auto simp: word_less_nat_alt)
  ultimately have "unat (rs_end s) + (\<Sum>s \<leftarrow> xs. unat (rs_end s) - unat (rs_start s)) < 2 ^ 64"
    using Cons.IH Cons.prems(1) by simp
  with Cons.prems show ?case by (auto simp: word_less_nat_alt)
qed simp

lemma seg_size_of_nat:
  "rs_start s < rs_end s \<Longrightarrow> rs_end s - rs_start s = of_nat (unat (rs_end s) - unat (rs_start s))"
  by (simp add: of_nat_diff word_less_nat_alt)

text \<open>The space counter is exact: it is the number of offsets in the segments.\<close>

lemma seg_space_exact:
  assumes "segs_ok xs"
  shows "unat (seg_space (mset xs)) = (\<Sum>s \<leftarrow> xs. unat (rs_end s) - unat (rs_start s))"
proof -
  have "seg_space (mset xs) = of_nat (\<Sum>s \<leftarrow> xs. unat (rs_end s) - unat (rs_start s))"
    using assms by (induction xs) (simp_all add: seg_size_of_nat)
  moreover have "(\<Sum>s \<leftarrow> xs. unat (rs_end s) - unat (rs_start s)) < 2 ^ 64"
    using seg_sizes_bound [OF assms, of 0] by simp
  ultimately show ?thesis by (simp add: unat_of_nat)
qed

lemma seg_space_ge:
  assumes "segs_ok xs" and "s \<in> set xs"
  shows "unat (rs_end s) - unat (rs_start s) \<le> unat (seg_space (mset xs))"
  using assms(2) by (simp add: seg_space_exact [OF assms(1)] member_le_sum_list)

section \<open>Removing a range\<close>

lemma segs_ok_same:
  assumes "segs_ok xs" "s \<in> set xs" "s' \<in> set xs" "rs_start s < rs_end s'" "rs_start s' < rs_end s"
  shows "s = s'"
proof (rule ccontr)
  assume "s \<noteq> s'"
  with assms(1-3) have "rs_end s < rs_start s' \<or> rs_end s' < rs_start s"
    unfolding segs_ok_def by (metis in_set_conv_nth linorder_neqE_nat sorted_wrt_nth_less)
  with assms(4,5) show False by auto
qed

lemma range_tree_lookup_contained:
  assumes inv: "rt_inv rt" and less: "start < end"
    and s: "s \<in> set (rt_segs rt)" "rs_start s \<le> start" "end \<le> rs_end s"
  shows "avl_find range_tree_seg_compare (rt_root rt) \<lparr>rs_start = start, rs_end = end\<rparr> = Inl s"
proof (cases "avl_find range_tree_seg_compare (rt_root rt) \<lparr>rs_start = start, rs_end = end\<rparr>")
  case (Inl s')
  have "s = s'"
    using range_tree_lookup_Inl [OF inv less Inl] s
    by (intro segs_ok_same [OF rt_invD(2) [OF inv]]) auto
  with Inl show ?thesis by simp
next
  case (Inr w)
  then have "{start ..< end} \<inter> covers (rt_segs rt) = {}"
    using range_tree_lookup_disjoint [OF inv less] by blast
  moreover have "start \<in> seg_cover s" using s less by (auto simp: seg_cover_def)
  ultimately show ?thesis using s less by (auto simp: covers_def)
qed

text \<open>
  The common end of the branches of \<open>range_tree_remove\<close>: the segment \<open>rs\<close> of the tree has
  been replaced by the segments \<open>new\<close>.
\<close>

lemma range_tree_remove_finish:
  assumes "range_tree_remove zr rt start sz = Inr (rtx\<lparr>rt_space := rt_space rtx - sz\<rparr>)"
    and "avl_inv (rt_root rtx)" and "rt_segs rtx = xs @ new @ ys" and "segs_ok (xs @ new @ ys)"
    and "rt_histogram rtx = seg_hist (mset (xs @ new @ ys))"
    and "rt_ops rtx = rt_ops rt" and "rt_ops rt \<Longrightarrow> rt_mirror rtx = mset (xs @ new @ ys)"
    and "rt_space rtx - sz = seg_space (mset (xs @ new @ ys))"
    and "covers (xs @ new @ ys) = covers (rt_segs rt) - {start ..< start + sz}"
  shows "\<exists>rt'. range_tree_remove zr rt start sz = Inr rt' \<and> rt_inv rt' \<and> rt_ops rt' = rt_ops rt \<and>
    rt_segs rt' = xs @ new @ ys \<and> covers (rt_segs rt') = covers (rt_segs rt) - {start ..< start + sz}"
  using assms by (simp add: rt_inv_def)

lemma covers_replace:
  assumes "segs_ok (xs @ s # ys)" and "seg_cover s - R = covers new" and "R \<subseteq> seg_cover s"
  shows "covers (xs @ new @ ys) = covers (xs @ s # ys) - R"
proof -
  have "seg_cover x \<inter> seg_cover s = {}" if "x \<in> set xs \<union> set ys" for x
    using assms(1) that by (fastforce simp: seg_cover_def)
  then have "covers xs \<inter> R = {}" "covers ys \<inter> R = {}"
    using assms(3) by (fastforce simp: covers_def)+
  with assms(2) show ?thesis by auto
qed


lemma range_tree_remove_found:
  assumes inv: "rt_inv rt" and less: "start < start + sz"
    and rs: "s \<in> set (rt_segs rt)" "rs_start s \<le> start" "start + sz \<le> rs_end s"
  shows "avl_find range_tree_seg_compare (rt_root rt) \<lparr>rs_start = start, rs_end = start + sz\<rparr> = Inl s"
    and "sz \<noteq> 0" and "sz \<le> rt_space rt"
proof -
  note I = rt_invD [OF inv]
  show "avl_find range_tree_seg_compare (rt_root rt) \<lparr>rs_start = start, rs_end = start + sz\<rparr> = Inl s"
    using rs by (intro range_tree_lookup_contained [OF inv less]) auto
  show "sz \<noteq> 0" using less by auto
  have "unat sz \<le> unat (rs_end s) - unat (rs_start s)"
    using unat_add_no_wrap [of start sz] less rs(2,3) by (simp add: word_le_nat_alt word_less_nat_alt)
  also have "\<dots> \<le> unat (rt_space rt)" using seg_space_ge [OF I(2) rs(1)] I(4) by simp
  finally show "sz \<le> rt_space rt" by (simp add: word_le_nat_alt)
qed

text \<open>What is left of a segment when a range of it is taken out.\<close>

definition seg_minus :: "range_seg \<Rightarrow> u64 \<Rightarrow> u64 \<Rightarrow> range_seg list" where
  "seg_minus s start end =
     (if rs_start s \<noteq> start then [s\<lparr>rs_end := start\<rparr>] else []) @
     (if rs_end s \<noteq> end then [s\<lparr>rs_start := end\<rparr>] else [])"

lemma seg_minus_ok:
  assumes ok: "segs_ok (xs @ s # ys)" and less: "start < end" and rs: "rs_start s \<le> start" "end \<le> rs_end s"
  shows "segs_ok (xs @ seg_minus s start end @ ys)"
    and "covers (xs @ seg_minus s start end @ ys) = covers (xs @ s # ys) - {start ..< end}"
    and "seg_space (mset (seg_minus s start end)) = rs_end s - rs_start s - (end - start)"
proof -
  have bounds: "segs_ok xs" "segs_ok ys" "\<forall>x \<in> set xs. rs_end x < rs_start s"
    "\<forall>y \<in> set ys. rs_end s < rs_start y" "\<forall>x \<in> set xs. \<forall>y \<in> set ys. rs_end x < rs_start y"
    using ok by auto
  then have "\<forall>x \<in> set xs. rs_end x < start" and "\<forall>x \<in> set xs. rs_end x < end"
    and "\<forall>y \<in> set ys. start < rs_start y" and "\<forall>y \<in> set ys. end < rs_start y"
    using rs less by fastforce+
  with bounds show "segs_ok (xs @ seg_minus s start end @ ys)"
    using rs less by (simp add: seg_minus_def order_less_le)
  show "covers (xs @ seg_minus s start end @ ys) = covers (xs @ s # ys) - {start ..< end}"
    by (rule covers_replace) (use ok rs less in \<open>auto simp: seg_minus_def seg_cover_def\<close>)
  show "seg_space (mset (seg_minus s start end)) = rs_end s - rs_start s - (end - start)"
    by (simp add: seg_minus_def)
qed

lemma range_tree_remove_contained:
  assumes inv: "rt_inv rt" and less: "start < start + sz"
    and rs: "rt_segs rt = xs @ s # ys" "rs_start s \<le> start" "start + sz \<le> rs_end s"
  defines "new \<equiv> seg_minus s start (start + sz)"
  shows "\<exists>rt'. range_tree_remove zr rt start sz = Inr rt' \<and> rt_inv rt' \<and> rt_ops rt' = rt_ops rt \<and>
    rt_segs rt' = xs @ new @ ys \<and> covers (rt_segs rt') = covers (rt_segs rt) - {start ..< start + sz}"
proof -
  let ?e = "start + sz" and ?l = "s\<lparr>rs_end := start\<rparr>" and ?r = "s\<lparr>rs_start := start + sz\<rparr>"
  let ?rt = "rt_call (range_tree_stat_decr rt s) (Rtop_remove s)"
  note I = rt_invD [OF inv]
  have f: "avl_find range_tree_seg_compare (rt_root rt) \<lparr>rs_start = start, rs_end = ?e\<rparr> = Inl s"
    and sz: "sz \<noteq> 0" and sp: "sz \<le> rt_space rt"
    using range_tree_remove_found [OF inv less _ rs(2,3)] rs(1) by simp_all
  have ok: "segs_ok (xs @ s # ys)" using I(2) rs(1) by simp
  have new_ok: "segs_ok (xs @ new @ ys)"
    and cov: "covers (xs @ new @ ys) = covers (rt_segs rt) - {start ..< ?e}"
    and spc: "rt_space rt - sz = seg_space (mset (xs @ new @ ys))"
    using seg_minus_ok [OF ok less rs(2,3)] I(4) by (simp_all add: new_def rs(1))
  have store: "avl_elems (avl_store (rt_root rt) s s') = xs @ s' # ys" "avl_inv (avl_store (rt_root rt) s s')" for s'
    using avlt.store_elems [OF I(3) rs(1)] avlt.store_inv [OF I(1,3)] rs(1) by auto
  have r_eq: "\<lparr>rs_start = ?e, rs_end = rs_end s\<rparr> = ?r" by simp
  consider (both) "rs_start s \<noteq> start" "rs_end s \<noteq> ?e" | (left) "rs_start s \<noteq> start" "rs_end s = ?e"
    | (right) "rs_start s = start" "rs_end s \<noteq> ?e" | (whole) "rs_start s = start" "rs_end s = ?e"
    by blast
  then show ?thesis
  proof cases
    case both
    let ?root = "avl_insert_here (avl_store (rt_root rt) s ?l) ?r ?l C1"
    let ?rtx = "rt_call (range_tree_stat_incr (rt_call ((range_tree_stat_incr ?rt ?r)\<lparr>rt_root := ?root\<rparr>)
      (Rtop_add ?r)) ?l) (Rtop_add ?l)"
    have new: "new = [?l, ?r]" using both by (simp add: new_def seg_minus_def)
    have "distinct (xs @ ?l # ys)" using segs_ok_distinct [OF new_ok] new by simp
    with avl_insert_here_after [of "avl_store (rt_root rt) s ?l" xs ?l ys ?r] store [of ?l]
    have root: "avl_elems ?root = xs @ new @ ys" "avl_inv ?root" by (simp_all add: avl_inv_def new)
    show ?thesis
      by (rule range_tree_remove_finish [where rtx = ?rtx])
        (use f sz sp rs both root new_ok cov spc I new in
          \<open>simp_all add: range_tree_remove_def Let_def range_tree_stat_hist r_eq\<close>)
  next
    case left
    let ?rtx = "rt_call (range_tree_stat_incr (?rt\<lparr>rt_root := avl_store (rt_root rt) s ?l\<rparr>) ?l) (Rtop_add ?l)"
    have new: "new = [?l]" using left by (simp add: new_def seg_minus_def)
    show ?thesis
      by (rule range_tree_remove_finish [where rtx = ?rtx])
        (use f sz sp rs left store new_ok cov spc I new in
          \<open>simp_all add: range_tree_remove_def Let_def range_tree_stat_hist r_eq\<close>)
  next
    case right
    let ?rtx = "rt_call (range_tree_stat_incr (?rt\<lparr>rt_root := avl_store (rt_root rt) s ?r\<rparr>) ?r) (Rtop_add ?r)"
    have new: "new = [?r]" using right by (simp add: new_def seg_minus_def)
    show ?thesis
      by (rule range_tree_remove_finish [where rtx = ?rtx])
        (use f sz sp rs right store new_ok cov spc I new in
          \<open>simp_all add: range_tree_remove_def Let_def range_tree_stat_hist\<close>)
  next
    case whole
    let ?root = "avl_remove (rt_root rt) s"
    have new: "new = []" using whole by (simp add: new_def seg_minus_def)
    have root: "avl_elems ?root = xs @ ys" "avl_inv ?root"
      using avlt.remove_elems [OF I(1,3) rs(1)] avlt.remove_inv [OF I(1,3)] rs(1) by auto
    show ?thesis
      by (rule range_tree_remove_finish [where rtx = "?rt\<lparr>rt_root := ?root\<rparr>"])
        (use f sz sp rs whole root new_ok cov spc I new in
          \<open>simp_all add: range_tree_remove_def Let_def range_tree_stat_hist\<close>)
  qed
qed


section \<open>Every branch of the operations\<close>

lemma range_tree_lookup_cases:
  assumes inv: "rt_inv rt" and less: "start < end"
  obtains (free) whr where "avl_find range_tree_seg_compare (rt_root rt) \<lparr>rs_start = start, rs_end = end\<rparr> = Inr whr"
      "{start ..< end} \<inter> covers (rt_segs rt) = {}" "\<not> {start ..< end} \<subseteq> covers (rt_segs rt)"
    | (held) s where "avl_find range_tree_seg_compare (rt_root rt) \<lparr>rs_start = start, rs_end = end\<rparr> = Inl s"
      "s \<in> set (rt_segs rt)" "rs_start s \<le> start" "end \<le> rs_end s"
      "{start ..< end} \<subseteq> covers (rt_segs rt)" "{start ..< end} \<inter> covers (rt_segs rt) \<noteq> {}"
    | (partial) s where "avl_find range_tree_seg_compare (rt_root rt) \<lparr>rs_start = start, rs_end = end\<rparr> = Inl s"
      "s \<in> set (rt_segs rt)" "\<not> (rs_start s \<le> start \<and> end \<le> rs_end s)" "start < rs_end s" "rs_start s < end"
      "\<not> {start ..< end} \<subseteq> covers (rt_segs rt)" "{start ..< end} \<inter> covers (rt_segs rt) \<noteq> {}"
proof (cases "avl_find range_tree_seg_compare (rt_root rt) \<lparr>rs_start = start, rs_end = end\<rparr>")
  case (Inr whr)
  moreover have "start \<in> {start ..< end}" using less by simp
  ultimately show ?thesis using range_tree_lookup_disjoint [OF inv less] free by blast
next
  case (Inl s)
  note F = range_tree_lookup_Inl [OF inv less Inl]
  have meet: "{start ..< end} \<inter> covers (rt_segs rt) \<noteq> {}"
    using range_tree_lookup_disjoint [OF inv less] Inl by auto
  show ?thesis
  proof (cases "{start ..< end} \<subseteq> covers (rt_segs rt)")
    case True
    then obtain s' where s': "s' \<in> set (rt_segs rt)" "rs_start s' \<le> start" "end \<le> rs_end s'"
      using covers_one_seg [OF rt_invD(2) [OF inv] less] by blast
    with range_tree_lookup_contained [OF inv less s'] Inl have "s' = s" by simp
    with s' True meet Inl show ?thesis by (intro held) auto
  next
    case False
    with F covers_one_seg [OF rt_invD(2) [OF inv] less] have "\<not> (rs_start s \<le> start \<and> end \<le> rs_end s)" by blast
    with F False meet Inl show ?thesis by (intro partial) auto
  qed
qed

lemma seg_hist_empty: "replicate range_tree_histogram_size 0 = seg_hist {#}"
  by (simp add: seg_hist_def range_tree_histogram_size_def map_replicate_const)

lemma range_tree_create_inv: "rt_inv (range_tree_create ops)"
  by (simp add: range_tree_create_def rt_inv_def rt_call_def rt_mirror_def seg_hist_empty Let_def)

lemma range_tree_create_segs [simp]: "rt_segs (range_tree_create ops) = []"
  by (simp add: range_tree_create_def Let_def)

text \<open>
  C1. \<open>range_tree_add\<close> on every input whose end does not wrap around: a range disjoint from
  the tree is added (the tree covers exactly the old offsets and the new ones, and every
  structural invariant, the space counter, the histogram and the callback mirror are kept); a
  range already present as a whole stops the system, or is ignored under \<open>zfs_recover\<close>; a
  range that overlaps the tree in part fails the \<open>VERIFY\<close>.
\<close>

theorem range_tree_add_correct:
  assumes "rt_inv rt" and "start < start + sz"
  shows "if {start ..< start + sz} \<inter> covers (rt_segs rt) = {} then
      \<exists>rt'. range_tree_add zr rt start sz = Inr rt' \<and> rt_inv rt' \<and> rt_ops rt' = rt_ops rt \<and>
        covers (rt_segs rt') = covers (rt_segs rt) \<union> {start ..< start + sz}
    else range_tree_add zr rt start sz =
      (if {start ..< start + sz} \<subseteq> covers (rt_segs rt)
       then (if zr then Inr rt else Inl Panic_allocated) else Inl Verify_overlap)"
proof -
  have "sz \<noteq> 0" using assms(2) by auto
  with assms show ?thesis
    by (cases rule: range_tree_lookup_cases [OF assms])
      (use range_tree_add_disjoint [OF assms] in \<open>auto simp: range_tree_add_def\<close>)
qed

theorem range_tree_add_correct_witness:
  "\<exists>rt'. range_tree_add False (range_tree_create True) 4096 512 = Inr rt' \<and> rt_inv rt' \<and>
     covers (rt_segs rt') = {4096 ..< 4608}"
  using range_tree_add_correct [OF range_tree_create_inv, of 4096 512 True False] by auto

text \<open>
  C2. \<open>range_tree_remove\<close> on every input whose end does not wrap around: a range the tree holds
  is taken out, offset for offset, and every invariant is kept; more space than the tree holds
  fails the first \<open>VERIFY\<close>; a range that is wholly free stops the system, or is ignored under
  \<open>zfs_recover\<close>; a range held in part fails the \<open>VERIFY\<close> on the segment.
\<close>

theorem range_tree_remove_correct:
  assumes "rt_inv rt" and "start < start + sz"
  shows "if {start ..< start + sz} \<subseteq> covers (rt_segs rt) then
      \<exists>rt'. range_tree_remove zr rt start sz = Inr rt' \<and> rt_inv rt' \<and> rt_ops rt' = rt_ops rt \<and>
        covers (rt_segs rt') = covers (rt_segs rt) - {start ..< start + sz}
    else range_tree_remove zr rt start sz =
      (if rt_space rt < sz then Inl Verify_space
       else if {start ..< start + sz} \<inter> covers (rt_segs rt) = {}
       then (if zr then Inr rt else Inl Panic_free) else Inl Verify_overlap)"
proof -
  have sz: "sz \<noteq> 0" using assms(2) by auto
  show ?thesis
  proof (rule range_tree_lookup_cases [OF assms])
    fix s
    assume held: "s \<in> set (rt_segs rt)" "rs_start s \<le> start" "start + sz \<le> rs_end s"
      "{start ..< start + sz} \<subseteq> covers (rt_segs rt)"
    obtain xs ys where "rt_segs rt = xs @ s # ys" using held(1) by (meson split_list)
    from range_tree_remove_contained [OF assms this held(2,3), of zr] show ?thesis
      by (subst if_P [OF held(4)]) blast
  qed (use sz in \<open>auto simp: range_tree_remove_def not_le\<close>)
qed

theorem range_tree_remove_correct_witness:
  "\<exists>rt1 rt2. range_tree_add False (range_tree_create True) 4096 512 = Inr rt1 \<and>
     range_tree_remove False rt1 4224 128 = Inr rt2 \<and> rt_inv rt2 \<and>
     covers (rt_segs rt2) = {4096 ..< 4608} - {4224 ..< 4352}"
proof -
  obtain rt' where "range_tree_add False (range_tree_create True) 4096 512 = Inr rt'" "rt_inv rt'"
      "covers (rt_segs rt') = {4096 ..< 4608}"
    using range_tree_add_disjoint [OF range_tree_create_inv, of 4096 512 True False] by auto
  with range_tree_remove_correct [of rt' 4224 128 False] show ?thesis by auto
qed

text \<open>C21. \<open>range_tree_contains\<close> decides whether every offset of the range is in the tree.\<close>

theorem range_tree_contains_correct:
  assumes "rt_inv rt" and "start < start + sz"
  shows "range_tree_contains rt start sz = Inr ({start ..< start + sz} \<subseteq> covers (rt_segs rt))"
proof -
  have "sz \<noteq> 0" using assms(2) by auto
  then show ?thesis
    by (cases rule: range_tree_lookup_cases [OF assms])
      (auto simp: range_tree_contains_def range_tree_find_def range_tree_find_impl_def)
qed

theorem range_tree_contains_correct_witness:
  "range_tree_contains (range_tree_create True) 4096 512 = Inr False"
  using range_tree_contains_correct [OF range_tree_create_inv, of 4096 512 True] by (simp add: subset_empty)

text \<open>One round of \<open>range_tree_clear\<close> takes out the part of the range in the segment found.\<close>

lemma range_tree_clear_step:
  assumes inv: "rt_inv rt" and less: "start < start + sz"
    and s: "s \<in> set (rt_segs rt)" "start < rs_end s" "rs_start s < start + sz"
  defines "a \<equiv> max (rs_start s) start" and "b \<equiv> min (rs_end s) (start + sz)"
  shows "\<exists>rt'. range_tree_remove zr rt a (b - a) = Inr rt' \<and> rt_inv rt' \<and>
    covers (rt_segs rt') = covers (rt_segs rt) - {a ..< b}"
    and "{a ..< b} \<subseteq> {start ..< start + sz}" and "a \<in> {a ..< b} \<inter> covers (rt_segs rt)"
proof -
  have ab: "a < b" "rs_start s \<le> a" "b \<le> rs_end s"
    using s less segs_ok_nonempty [OF rt_invD(2) [OF inv] s(1)] by (auto simp: a_def b_def)
  obtain xs ys where "rt_segs rt = xs @ s # ys" using s(1) by (meson split_list)
  from range_tree_remove_contained [OF inv _ this, of a "b - a" zr] ab
  show "\<exists>rt'. range_tree_remove zr rt a (b - a) = Inr rt' \<and> rt_inv rt' \<and>
    covers (rt_segs rt') = covers (rt_segs rt) - {a ..< b}" by auto
  show "{a ..< b} \<subseteq> {start ..< start + sz}" by (auto simp: a_def b_def)
  show "a \<in> {a ..< b} \<inter> covers (rt_segs rt)"
    using ab s(1) order.strict_trans2 [OF ab(1,3)] by (auto simp: covers_def seg_cover_def)
qed

text \<open>
  C11. \<open>range_tree_clear\<close> always ends, without a failed \<open>VERIFY\<close> or panic, and takes exactly the
  offsets of the range out of the tree, whatever part of the range the tree holds.
\<close>

theorem range_tree_clear_correct:
  assumes "rt_inv rt" and "start < start + sz"
  shows "\<exists>rt'. range_tree_clear zr rt start sz = Some (Inr rt') \<and> rt_inv rt' \<and>
    covers (rt_segs rt') = covers (rt_segs rt) - {start ..< start + sz}"
  using assms(1)
proof (induction "card (covers (rt_segs rt) \<inter> {start ..< start + sz})" arbitrary: rt rule: less_induct)
  case less
  have sz: "sz \<noteq> 0" using assms(2) by auto
  show ?case
  proof (cases "avl_find range_tree_seg_compare (rt_root rt) \<lparr>rs_start = start, rs_end = start + sz\<rparr>")
    case (Inr whr)
    then have "{start ..< start + sz} \<inter> covers (rt_segs rt) = {}"
      using range_tree_lookup_disjoint [OF less.prems assms(2)] by blast
    with Inr sz less.prems show ?thesis
      by (subst range_tree_clear.simps) (auto simp: range_tree_find_impl_def)
  next
    case (Inl s)
    let ?a = "max (rs_start s) start" and ?b = "min (rs_end s) (start + sz)"
    have s: "s \<in> set (rt_segs rt)" "start < rs_end s" "rs_start s < start + sz"
      using range_tree_lookup_Inl [OF less.prems assms(2) Inl] by auto
    note step = range_tree_clear_step [OF less.prems assms(2) s]
    obtain rt' where rt': "range_tree_remove zr rt ?a (?b - ?a) = Inr rt'" "rt_inv rt'"
        "covers (rt_segs rt') = covers (rt_segs rt) - {?a ..< ?b}"
      using step(1) by blast
    have "card (covers (rt_segs rt') \<inter> {start ..< start + sz}) < card (covers (rt_segs rt) \<inter> {start ..< start + sz})"
      unfolding rt'(3) by (rule psubset_card_mono [OF finite]) (use step(2,3) in blast)
    from less.hyps [OF this rt'(2)] step(2) rt'(1,3) Inl sz show ?thesis
      by (subst range_tree_clear.simps) (auto simp: range_tree_find_impl_def Let_def)
  qed
qed

theorem range_tree_clear_correct_witness:
  "\<exists>rt'. range_tree_clear False (range_tree_create True) 4096 512 = Some (Inr rt') \<and> rt_inv rt' \<and>
     covers (rt_segs rt') = {}"
  using range_tree_clear_correct [OF range_tree_create_inv, of 4096 512 False True] by simp


lemma range_tree_vacate_all:
  assumes "rt_inv rt"
  shows "rt_inv (fst (range_tree_vacate rt))" "rt_segs (fst (range_tree_vacate rt)) = []"
    "rt_space (fst (range_tree_vacate rt)) = 0"
    "mset (snd (range_tree_vacate rt)) = image_mset rs_extent (mset (rt_segs rt))"
proof -
  obtain segs root where d: "avl_drain (rt_root rt) Cookie_NULL = (segs, root)" by fastforce
  with avl_drain_all [OF rt_invD(1) [OF assms]]
  have "mset segs = mset (rt_segs rt)" "avl_root root = Null" "avl_numnodes root = 0"
    by (simp_all add: mset_postorder)
  moreover from this have "avl_inv root" by (simp add: avl_inv_def)
  ultimately show "rt_inv (fst (range_tree_vacate rt))" "rt_segs (fst (range_tree_vacate rt)) = []"
    "rt_space (fst (range_tree_vacate rt)) = 0"
    "mset (snd (range_tree_vacate rt)) = image_mset rs_extent (mset (rt_segs rt))"
    using d by (auto simp: range_tree_vacate_def rt_inv_def seg_hist_empty Let_def)
qed

text \<open>
  C22. \<open>range_tree_vacate\<close> hands every segment of the tree to the callback exactly once and
  leaves an empty tree that satisfies the invariant.
\<close>

theorem range_tree_vacate_correct:
  assumes "rt_inv rt" and "range_tree_vacate rt = (rt', calls)"
  shows "rt_inv rt' \<and> rt_segs rt' = [] \<and> rt_space rt' = 0 \<and>
    mset calls = image_mset rs_extent (mset (rt_segs rt))"
  using range_tree_vacate_all [OF assms(1)] assms(2) by simp

theorem range_tree_vacate_correct_witness:
  "\<exists>rt1 rt2. range_tree_add False (range_tree_create True) 4096 512 = Inr rt1 \<and>
     range_tree_vacate rt1 = (rt2, [(4096, 512)]) \<and> rt_inv rt2 \<and> rt_segs rt2 = []"
proof -
  obtain rt1 where a: "range_tree_add False (range_tree_create True) 4096 512 = Inr rt1" and i: "rt_inv rt1"
    using range_tree_add_disjoint [OF range_tree_create_inv, of 4096 512 True False] by auto
  have "map_sum id rt_segs (range_tree_add False (range_tree_create True) 4096 512)
      = Inr [\<lparr>rs_start = 4096, rs_end = 4608\<rparr>]"
    by code_simp
  with a have s: "rt_segs rt1 = [\<lparr>rs_start = 4096, rs_end = 4608\<rparr>]" by simp
  obtain rt2 calls where v: "range_tree_vacate rt1 = (rt2, calls)" by fastforce
  with range_tree_vacate_correct [OF i v] a s show ?thesis by (auto simp: rs_extent_def)
qed

text \<open>The statistics check that \<open>ZFS_DEBUG_RANGE_TREE\<close> builds run holds in every valid tree.\<close>

lemma range_tree_hist_seg_hist:
  "range_tree_hist xs (seg_hist M) = seg_hist (M + mset xs)"
  by (induction xs arbitrary: M) (simp_all add: seg_hist_incr)

lemma range_tree_stat_verify_holds: "rt_inv rt \<Longrightarrow> range_tree_stat_verify rt"
  by (simp add: range_tree_stat_verify_def seg_hist_empty range_tree_hist_seg_hist rt_invD(5))

section \<open>Range trees as extent stores\<close>

lemma rt_space_card:
  assumes "rt_inv rt"
  shows "unat (rt_space rt) = card (covers (rt_segs rt))"
proof -
  have "segs_ok xs \<Longrightarrow> card (covers xs) = (\<Sum>s \<leftarrow> xs. unat (rs_end s) - unat (rs_start s))" for xs
  proof (induction xs)
    case (Cons s xs)
    then have "seg_cover s \<inter> covers xs = {}"
      by (fastforce simp: seg_cover_def covers_def)
    moreover have "finite (covers xs)" and "finite (seg_cover s)" by simp_all
    ultimately show ?case
      using Cons by (simp add: card_Un_disjoint) (simp add: seg_cover_def card_ivl)
  qed simp
  with rt_invD(2,4) [OF assms] show ?thesis by (simp add: seg_space_exact)
qed

lemma range_tree_remove_held:
  assumes "rt_inv rt" and "start < start + sz" and "{start ..< start + sz} \<subseteq> covers (rt_segs rt)"
  shows "\<exists>rt'. range_tree_remove zr rt start sz = Inr rt' \<and> rt_inv rt' \<and>
    covers (rt_segs rt') = covers (rt_segs rt) - {start ..< start + sz}"
proof -
  obtain s where s: "s \<in> set (rt_segs rt)" "rs_start s \<le> start" "start + sz \<le> rs_end s"
    using covers_one_seg [OF rt_invD(2) [OF assms(1)] assms(2)] assms(3) by blast
  then obtain xs ys where "rt_segs rt = xs @ s # ys" by (meson split_list)
  from range_tree_remove_contained [OF assms(1,2) this s(2,3)] show ?thesis by blast
qed

interpretation rts: extent_set rt_inv "\<lambda>rt. covers (rt_segs rt)" range_tree_space "range_tree_add zr" "range_tree_remove zr"
  for zr
proof unfold_locales
  fix rt and start sz :: u64
  assume *: "rt_inv rt" "start < start + sz"
  show "\<exists>rt'. range_tree_add zr rt start sz = Inr rt' \<and> rt_inv rt' \<and>
      covers (rt_segs rt') = covers (rt_segs rt) \<union> {start ..< start + sz}"
    if "{start ..< start + sz} \<inter> covers (rt_segs rt) = {}"
    using range_tree_add_disjoint [OF * that] by blast
  show "\<exists>rt'. range_tree_remove zr rt start sz = Inr rt' \<and> rt_inv rt' \<and>
      covers (rt_segs rt') = covers (rt_segs rt) - {start ..< start + sz}"
    if "{start ..< start + sz} \<subseteq> covers (rt_segs rt)"
    using range_tree_remove_held [OF * that] .
qed (simp add: rt_space_card range_tree_space_def)

end
