(* ===== verification/SpaceMap.thy ===== *)
theory SpaceMap
  imports RangeTree Extents
begin

text \<open>
  Space maps (\<open>module/zfs/space_map.c\<close>, the entry format of \<open>include/sys/space_map.h\<close>): the log
  of allocations and frees of a metaslab. \<open>space_map_write\<close> appends the segments of a range tree
  to the log, \<open>space_map_load\<close> replays it into a range tree.

  The object's data is the list of its 64-bit words. \<open>dmu_write\<close> stores words at a byte offset;
  \<open>dmu_read\<close> returns them or the error the parameter \<open>dmu_read_err\<close> gives for the offset
  (0 for success). A failed \<open>VERIFY\<close> is an error of the sum type; a failure inside
  \<open>range_tree_add\<close> or \<open>range_tree_remove\<close> is passed on.
\<close>

section \<open>Entries\<close>

datatype maptype = SM_ALLOC | SM_FREE

definition P2PHASE :: "u64 \<Rightarrow> u64 \<Rightarrow> u64" where
  "P2PHASE x align = x AND (align - 1)"

definition BF64_DECODE :: "u64 \<Rightarrow> nat \<Rightarrow> nat \<Rightarrow> u64" where
  "BF64_DECODE x low len = P2PHASE (drop_bit low x) (push_bit len 1)"

definition BF64_ENCODE :: "u64 \<Rightarrow> nat \<Rightarrow> nat \<Rightarrow> u64" where
  "BF64_ENCODE x low len = push_bit low (P2PHASE x (push_bit len 1))"

definition SM_RUN_DECODE :: "u64 \<Rightarrow> u64" where "SM_RUN_DECODE x = BF64_DECODE x 0 15 + 1"
definition SM_RUN_ENCODE :: "u64 \<Rightarrow> u64" where "SM_RUN_ENCODE x = BF64_ENCODE (x - 1) 0 15"
definition SM_TYPE_DECODE :: "u64 \<Rightarrow> u64" where "SM_TYPE_DECODE x = BF64_DECODE x 15 1"
definition SM_TYPE_ENCODE :: "u64 \<Rightarrow> u64" where "SM_TYPE_ENCODE x = BF64_ENCODE x 15 1"
definition SM_OFFSET_DECODE :: "u64 \<Rightarrow> u64" where "SM_OFFSET_DECODE x = BF64_DECODE x 16 47"
definition SM_OFFSET_ENCODE :: "u64 \<Rightarrow> u64" where "SM_OFFSET_ENCODE x = BF64_ENCODE x 16 47"
definition SM_DEBUG_DECODE :: "u64 \<Rightarrow> u64" where "SM_DEBUG_DECODE x = BF64_DECODE x 63 1"
definition SM_DEBUG_ENCODE :: "u64 \<Rightarrow> u64" where "SM_DEBUG_ENCODE x = BF64_ENCODE x 63 1"
definition SM_DEBUG_ACTION_ENCODE :: "u64 \<Rightarrow> u64" where "SM_DEBUG_ACTION_ENCODE x = BF64_ENCODE x 60 3"
definition SM_DEBUG_SYNCPASS_ENCODE :: "u64 \<Rightarrow> u64" where "SM_DEBUG_SYNCPASS_ENCODE x = BF64_ENCODE x 50 10"
definition SM_DEBUG_TXG_ENCODE :: "u64 \<Rightarrow> u64" where "SM_DEBUG_TXG_ENCODE x = BF64_ENCODE x 0 50"

definition SM_RUN_MAX :: u64 where "SM_RUN_MAX = SM_RUN_DECODE (- 1)"

lemma unat_shift:
  "unat (drop_bit n x) = unat (x :: u64) div 2 ^ n"
  "unat (push_bit n x) = unat x * 2 ^ n mod 2 ^ 64"
  "unat (take_bit n x) = unat x mod 2 ^ n"
proof -
  show "unat (drop_bit n x) = unat x div 2 ^ n" by (simp only: unat_drop_bit_eq drop_bit_eq_div [of n "unat x"])
  show "unat (push_bit n x) = unat x * 2 ^ n mod 2 ^ 64"
    by (simp only: unsigned_push_bit_eq push_bit_eq_mult [of n "unat x"] take_bit_eq_mod len_bit0 len_num1) simp
  show "unat (take_bit n x) = unat x mod 2 ^ n"
    by (simp only: unsigned_take_bit_eq take_bit_eq_mod [of n "unat x"])
qed

lemma P2PHASE_take_bit: "P2PHASE x (2 ^ len) = take_bit len x"
  by (simp add: P2PHASE_def take_bit_eq_mask mask_eq_decr_exp)

lemma BF64_DECODE_eq: "BF64_DECODE x low len = take_bit len (drop_bit low x)"
  by (simp add: BF64_DECODE_def push_bit_eq_mult P2PHASE_take_bit)

lemma BF64_ENCODE_eq: "BF64_ENCODE x low len = push_bit low (take_bit len x)"
  by (simp add: BF64_ENCODE_def push_bit_eq_mult P2PHASE_take_bit)

lemma SM_RUN_MAX_eq: "SM_RUN_MAX = 32768"
  by (simp add: SM_RUN_MAX_def SM_RUN_DECODE_def BF64_DECODE_eq mask_eq_decr_exp)

fun maptype_val :: "maptype \<Rightarrow> u64" where
  "maptype_val SM_ALLOC = 0"
| "maptype_val SM_FREE = 1"

section \<open>State\<close>

record space_map_phys =
  smp_object :: u64
  smp_objsize :: u64
  smp_alloc :: u64
  smp_histogram :: "u64 list"

definition SPACE_MAP_HISTOGRAM_SIZE :: nat where "SPACE_MAP_HISTOGRAM_SIZE = 32"
definition sizeof_space_map_phys :: nat where "sizeof_space_map_phys = 8 * (3 + 5 + SPACE_MAP_HISTOGRAM_SIZE)"

text \<open>
  \<open>sm_shift\<close> is a \<open>uint8_t\<close>, \<open>sm_blksz\<close> a \<open>uint32_t\<close>. \<open>sm_dbuf\<close> tells whether the bonus buffer is held;
  \<open>sm_db_size\<close> and \<open>sm_bonus_size\<close> are its size and the object's bonus size, \<open>sm_data\<close> the object's contents.
\<close>

record space_map =
  sm_start :: u64
  sm_size :: u64
  sm_shift :: nat
  sm_length :: u64
  sm_alloc :: u64
  sm_object :: u64
  sm_blksz :: nat
  sm_phys :: space_map_phys
  sm_dbuf :: bool
  sm_db_size :: nat
  sm_bonus_size :: nat
  sm_data :: "u64 list"

text \<open>The failures: of a range tree operation, of a \<open>VERIFY\<close>, and of an \<open>ASSERT\<close> of a debug build.\<close>

datatype sm_error = Rt_failed rt_error | Verify_rt_space | Verify_block_size | Verify_entry | Verify_total
  | Verify_object | Verify_feature | Verify_free | Verify_open | Assert_entries | Assert_histogram

section \<open>Writing\<close>

text \<open>A \<open>space_map_t *\<close> that may be \<open>NULL\<close> is an option.\<close>

definition space_map_object :: "space_map option \<Rightarrow> u64" where
  "space_map_object smp = (case smp of Some sm \<Rightarrow> sm_object sm | None \<Rightarrow> 0)"

definition space_map_allocated :: "space_map option \<Rightarrow> u64" where
  "space_map_allocated smp = (case smp of Some sm \<Rightarrow> sm_alloc sm | None \<Rightarrow> 0)"

definition space_map_length :: "space_map option \<Rightarrow> u64" where
  "space_map_length smp = (case smp of Some sm \<Rightarrow> sm_length sm | None \<Rightarrow> 0)"

definition space_map_alloc_delta :: "space_map option \<Rightarrow> u64" where
  "space_map_alloc_delta smp =
     (case smp of None \<Rightarrow> 0 | Some sm \<Rightarrow> smp_alloc (sm_phys sm) - space_map_allocated (Some sm))"

definition space_map_update :: "space_map option \<Rightarrow> space_map option" where
  "space_map_update smp =
     (case smp of
        None \<Rightarrow> None
      | Some sm \<Rightarrow> Some (sm\<lparr>sm_alloc := smp_alloc (sm_phys sm), sm_length := smp_objsize (sm_phys sm)\<rparr>))"

definition howmany :: "u64 \<Rightarrow> u64 \<Rightarrow> u64" where
  "howmany x y = (x + (y - 1)) div y"

definition space_map_entries :: "space_map \<Rightarrow> range_tree \<Rightarrow> u64" where
  "space_map_entries sm rt =
     fold (\<lambda>rs entries. entries + howmany (drop_bit (sm_shift sm) (rs_end rs - rs_start rs)) SM_RUN_MAX)
       (avl_for_each (rt_root rt)) 1"

text \<open>Storing words at a byte offset of the object (holes read as zero).\<close>

definition dmu_write :: "u64 list \<Rightarrow> u64 \<Rightarrow> u64 list \<Rightarrow> u64 list" where
  "dmu_write data off ws =
     (let n = unat off div 8
      in take n (data @ replicate (n - length data) 0) @ ws @ drop (n + length ws) data)"

text \<open>Writing out the first words of the entry buffer and advancing \<open>smp_objsize\<close>.\<close>

definition space_map_flush :: "space_map \<Rightarrow> u64 list \<Rightarrow> u64 \<Rightarrow> space_map" where
  "space_map_flush sm entry_map bytes =
     sm\<lparr>sm_data := dmu_write (sm_data sm) (smp_objsize (sm_phys sm)) entry_map,
        sm_phys := (sm_phys sm)\<lparr>smp_objsize := smp_objsize (sm_phys sm) + bytes\<rparr>\<rparr>"

text \<open>
  The inner loop over the runs of one segment. The state is the map, the used part of the
  entry buffer, and the number of entries so far.
\<close>

function space_map_write_runs ::
  "maptype \<Rightarrow> u64 \<Rightarrow> u64 \<Rightarrow> space_map \<times> u64 list \<times> u64 \<Rightarrow> space_map \<times> u64 list \<times> u64" where
  "space_map_write_runs maptype start sz (sm, buf, actual_entries) =
     (if sz = 0 then (sm, buf, actual_entries)
      else
        (let run_len = min sz SM_RUN_MAX;
             (sm, buf) = (if length buf = sm_blksz sm div 8
                          then (space_map_flush sm buf (of_nat (sm_blksz sm)), []) else (sm, buf));
             e = SM_OFFSET_ENCODE start OR SM_TYPE_ENCODE (maptype_val maptype) OR SM_RUN_ENCODE run_len
         in space_map_write_runs maptype (start + run_len) (sz - run_len) (sm, buf @ [e], actual_entries + 1)))"
  by pat_completeness auto
termination
proof (relation "measure (\<lambda>(_, _, sz, _). unat sz)", goal_cases)
  case (2 maptype start sz sm buf n x xa y e)
  then have "0 < unat x" "unat x \<le> unat sz"
    by (auto simp: SM_RUN_MAX_eq min_def unat_gt_0 word_le_nat_alt)
  then show ?case using \<open>sz \<noteq> 0\<close> by (auto simp: unat_sub word_le_nat_alt)
qed simp

definition space_map_write_seg ::
  "maptype \<Rightarrow> range_seg \<Rightarrow> (space_map \<times> u64 list \<times> u64) \<times> u64 \<Rightarrow> (space_map \<times> u64 list \<times> u64) \<times> u64" where
  "space_map_write_seg maptype rs st_total =
     (let (st, total) = st_total;
          sm = fst st;
          size = drop_bit (sm_shift sm) (rs_end rs - rs_start rs);
          start = drop_bit (sm_shift sm) (rs_start rs - sm_start sm)
      in (space_map_write_runs maptype start size st, total + push_bit (sm_shift sm) size))"

text \<open>\<open>sync_pass\<close> and \<open>txg\<close> are the results of \<open>spa_sync_pass\<close> and \<open>dmu_tx_get_txg\<close>.\<close>

definition space_map_write ::
  "space_map \<Rightarrow> range_tree \<Rightarrow> maptype \<Rightarrow> u64 \<Rightarrow> u64 \<Rightarrow> sm_error + space_map" where
  "space_map_write sm rt maptype sync_pass txg =
     (if space_map_object (Some sm) = 0 then Inl Verify_object
      else
        (let sm = sm\<lparr>sm_phys := (sm_phys sm)\<lparr>smp_object := sm_object sm\<rparr>\<rparr>
         in if range_tree_space rt = 0 then Inr sm
            else
              (let sm = sm\<lparr>sm_phys := (sm_phys sm)\<lparr>smp_alloc :=
                        (if maptype = SM_ALLOC then smp_alloc (sm_phys sm) + range_tree_space rt
                         else smp_alloc (sm_phys sm) - range_tree_space rt)\<rparr>\<rparr>;
                   expected_entries = space_map_entries sm rt;
                   debug = SM_DEBUG_ENCODE 1 OR SM_DEBUG_ACTION_ENCODE (maptype_val maptype) OR
                           SM_DEBUG_SYNCPASS_ENCODE sync_pass OR SM_DEBUG_TXG_ENCODE txg;
                   ((sm, buf, actual_entries), total) =
                     fold (space_map_write_seg maptype) (avl_for_each (rt_root rt)) ((sm, [debug], 1), 0);
                   sm = (if buf \<noteq> [] then space_map_flush sm buf (of_nat (8 * length buf)) else sm)
               in if expected_entries \<noteq> actual_entries then Inl Assert_entries
                  else if range_tree_space rt \<noteq> total then Inl Verify_total
                  else Inr sm)))"

section \<open>Loading\<close>

definition sm_entry_offset :: "space_map \<Rightarrow> u64 \<Rightarrow> u64" where
  "sm_entry_offset sm e = push_bit (sm_shift sm) (SM_OFFSET_DECODE e) + sm_start sm"

definition sm_entry_size :: "space_map \<Rightarrow> u64 \<Rightarrow> u64" where
  "sm_entry_size sm e = push_bit (sm_shift sm) (SM_RUN_DECODE e)"

definition space_map_load_entry ::
  "bool \<Rightarrow> space_map \<Rightarrow> maptype \<Rightarrow> u64 \<Rightarrow> range_tree \<Rightarrow> sm_error + range_tree" where
  "space_map_load_entry zfs_recover sm maptype e rt =
     (if SM_DEBUG_DECODE e \<noteq> 0 then Inr rt
      else
        (let offset = sm_entry_offset sm e;
             size = sm_entry_size sm e;
             lift = (\<lambda>r. case r of Inl x \<Rightarrow> Inl (Rt_failed x) | Inr rt \<Rightarrow> Inr rt)
         in if P2PHASE offset (push_bit (sm_shift sm) 1) \<noteq> 0 \<or> P2PHASE size (push_bit (sm_shift sm) 1) \<noteq> 0 \<or>
               \<not> offset \<ge> sm_start sm \<or> \<not> offset + size \<le> sm_start sm + sm_size sm
            then Inl Verify_entry
            else if SM_TYPE_DECODE e = maptype_val maptype
            then (if \<not> range_tree_space rt + size \<le> sm_size sm then Inl Verify_rt_space
                  else lift (range_tree_add zfs_recover rt offset size))
            else lift (range_tree_remove zfs_recover rt offset size)))"

fun space_map_load_entries ::
  "bool \<Rightarrow> space_map \<Rightarrow> maptype \<Rightarrow> u64 list \<Rightarrow> range_tree \<Rightarrow> sm_error + range_tree" where
  "space_map_load_entries zfs_recover sm maptype [] rt = Inr rt"
| "space_map_load_entries zfs_recover sm maptype (e # es) rt =
     (case space_map_load_entry zfs_recover sm maptype e rt of
        Inl x \<Rightarrow> Inl x
      | Inr rt \<Rightarrow> space_map_load_entries zfs_recover sm maptype es rt)"

text \<open>The words of the object at a byte offset.\<close>

definition dmu_read :: "u64 list \<Rightarrow> u64 \<Rightarrow> u64 \<Rightarrow> u64 list" where
  "dmu_read data off sz =
     (let n = unat off div 8; k = unat sz div 8
      in take k (drop n data @ replicate (n + k - length data) 0))"

text \<open>
  The loop over the blocks of the object, a \<open>partial_function\<close> since the source's
  \<open>offset += bufsize\<close> is unsigned arithmetic. The result is \<open>dmu_read\<close>'s error and the tree.
\<close>

partial_function (option) space_map_load_blocks ::
  "bool \<Rightarrow> (u64 \<Rightarrow> int) \<Rightarrow> space_map \<Rightarrow> maptype \<Rightarrow> u64 \<Rightarrow> u64 \<Rightarrow> range_tree \<Rightarrow>
     (sm_error + int \<times> range_tree) option" where
  "space_map_load_blocks zfs_recover dmu_read_err sm maptype bufsize offset rt =
     (let end = space_map_length (Some sm) in
      if \<not> offset < end then Some (Inr (0, rt))
      else
        (let sz = min (end - offset) bufsize
         in if P2PHASE sz 8 \<noteq> 0 \<or> sz = 0 then Some (Inl Verify_block_size)
            else if dmu_read_err offset \<noteq> 0 then Some (Inr (dmu_read_err offset, rt))
            else
              (case space_map_load_entries zfs_recover sm maptype (dmu_read (sm_data sm) offset sz) rt of
                 Inl x \<Rightarrow> Some (Inl x)
               | Inr rt \<Rightarrow>
                   space_map_load_blocks zfs_recover dmu_read_err sm maptype bufsize (offset + bufsize) rt)))"

definition space_map_load ::
  "bool \<Rightarrow> (u64 \<Rightarrow> int) \<Rightarrow> space_map \<Rightarrow> range_tree \<Rightarrow> maptype \<Rightarrow> (sm_error + int \<times> range_tree) option" where
  "space_map_load zfs_recover dmu_read_err sm rt maptype =
     (if range_tree_space rt \<noteq> 0 then Some (Inl Verify_rt_space)
      else
        (let start =
              (if maptype = SM_FREE then
                 (case range_tree_add zfs_recover rt (sm_start sm) (sm_size sm) of
                    Inl x \<Rightarrow> Inl (Rt_failed x) | Inr rt \<Rightarrow> Inr rt)
               else Inr rt);
             space = (if maptype = SM_FREE then sm_size sm - space_map_allocated (Some sm) else space_map_allocated (Some sm));
             bufsize = max (of_nat (sm_blksz sm)) 512
         in case start of
              Inl x \<Rightarrow> Some (Inl x)
            | Inr rt \<Rightarrow>
                (case space_map_load_blocks zfs_recover dmu_read_err sm maptype bufsize 0 rt of
                   None \<Rightarrow> None
                 | Some (Inl x) \<Rightarrow> Some (Inl x)
                 | Some (Inr (error, rt)) \<Rightarrow>
                     if error = 0
                     then (if range_tree_space rt \<noteq> space then Some (Inl Verify_rt_space) else Some (Inr (0, rt)))
                     else Some (Inr (error, fst (range_tree_vacate rt))))))"

section \<open>The histogram and the life of a map\<close>

definition space_map_histogram_clear :: "space_map \<Rightarrow> space_map" where
  "space_map_histogram_clear sm =
     (if sm_db_size sm \<noteq> sizeof_space_map_phys then sm
      else sm\<lparr>sm_phys := (sm_phys sm)\<lparr>smp_histogram := replicate SPACE_MAP_HISTOGRAM_SIZE 0\<rparr>\<rparr>)"





text \<open>
  The objset as this file uses it: whether \<open>SPA_FEATURE_SPACEMAP_HISTOGRAM\<close> is enabled and its
  reference count, the tunable \<open>space_map_blksz\<close>, and the number of bonus buffers held.
\<close>

record sm_objset =
  os_hist_enabled :: bool
  os_hist_count :: u64
  os_blksz :: nat
  os_holds :: nat

text \<open>What \<open>dmu_bonus_hold\<close> and \<open>dmu_object_size_from_db\<close> give for an object.\<close>

record sm_object_info =
  doi_blksz :: nat
  doi_db_size :: nat
  doi_bonus_size :: nat
  doi_phys :: space_map_phys
  doi_data :: "u64 list"

definition space_map_open_impl ::
  "sm_objset \<Rightarrow> space_map \<Rightarrow> int + sm_object_info \<Rightarrow> int \<times> sm_objset \<times> space_map" where
  "space_map_open_impl os sm hold =
     (case hold of
        Inl error \<Rightarrow> (error, os, sm)
      | Inr doi \<Rightarrow>
          (0, os\<lparr>os_holds := os_holds os + 1\<rparr>,
           sm\<lparr>sm_dbuf := True, sm_db_size := doi_db_size doi, sm_bonus_size := doi_bonus_size doi,
              sm_blksz := doi_blksz doi, sm_phys := doi_phys doi, sm_data := doi_data doi\<rparr>))"

definition dmu_buf_rele :: "sm_objset \<Rightarrow> sm_objset" where
  "dmu_buf_rele os = os\<lparr>os_holds := os_holds os - 1\<rparr>"

definition space_map_close :: "sm_objset \<Rightarrow> space_map option \<Rightarrow> sm_objset" where
  "space_map_close os smp =
     (case smp of None \<Rightarrow> os | Some sm \<Rightarrow> if sm_dbuf sm then dmu_buf_rele os else os)"

definition space_map_open ::
  "sm_objset \<Rightarrow> u64 \<Rightarrow> u64 \<Rightarrow> u64 \<Rightarrow> nat \<Rightarrow> int + sm_object_info \<Rightarrow> sm_objset \<times> (int + space_map)" where
  "space_map_open os object start sz shift hold =
     (let sm = \<lparr>sm_start = start, sm_size = sz, sm_shift = shift, sm_length = 0, sm_alloc = 0,
                sm_object = object, sm_blksz = 0,
                sm_phys = \<lparr>smp_object = 0, smp_objsize = 0, smp_alloc = 0, smp_histogram = []\<rparr>,
                sm_dbuf = False, sm_db_size = 0, sm_bonus_size = 0, sm_data = []\<rparr>
      in case space_map_open_impl os sm hold of (error, os, sm) \<Rightarrow>
           if error \<noteq> 0 then (space_map_close os (Some sm), Inl error) else (os, Inr sm))"




section \<open>The entry format\<close>

definition sm_encode :: "maptype \<Rightarrow> u64 \<Rightarrow> u64 \<Rightarrow> u64" where
  "sm_encode maptype start run_len =
     SM_OFFSET_ENCODE start OR SM_TYPE_ENCODE (maptype_val maptype) OR SM_RUN_ENCODE run_len"

definition sm_debug :: "maptype \<Rightarrow> u64 \<Rightarrow> u64 \<Rightarrow> u64" where
  "sm_debug maptype sync_pass txg = SM_DEBUG_ENCODE 1 OR SM_DEBUG_ACTION_ENCODE (maptype_val maptype) OR
     SM_DEBUG_SYNCPASS_ENCODE sync_pass OR SM_DEBUG_TXG_ENCODE txg"

lemmas sm_code_defs =
  SM_OFFSET_ENCODE_def SM_TYPE_ENCODE_def SM_RUN_ENCODE_def SM_OFFSET_DECODE_def SM_TYPE_DECODE_def
  SM_RUN_DECODE_def SM_DEBUG_DECODE_def SM_DEBUG_ENCODE_def SM_DEBUG_ACTION_ENCODE_def
  SM_DEBUG_SYNCPASS_ENCODE_def SM_DEBUG_TXG_ENCODE_def BF64_DECODE_eq BF64_ENCODE_eq

lemma take_1_drop_bit: "take_bit (Suc 0) (drop_bit n x) = of_bool (bit (x :: u64) n)"
  by (simp add: bit_iff_odd_drop_bit mod_2_eq_odd)

lemma sm_decode_debug:
  "SM_DEBUG_DECODE (sm_encode t start run_len) = 0"
  "SM_DEBUG_DECODE (sm_debug t sync_pass txg) = 1"
  by (simp_all add: sm_encode_def sm_debug_def sm_code_defs take_1_drop_bit del: take_bit_Suc_0 cong: conj_cong)
    (simp_all add: bit_simps)

lemma sm_decode_fields:
  "SM_OFFSET_DECODE (sm_encode t start run_len) = take_bit 47 start"
  "SM_TYPE_DECODE (sm_encode t start run_len) = maptype_val t"
  "SM_RUN_DECODE (sm_encode t start run_len) = take_bit 15 (run_len - 1) + 1"
proof -
  show "SM_OFFSET_DECODE (sm_encode t start run_len) = take_bit 47 start"
    by (rule bit_word_eqI) (auto simp: sm_encode_def sm_code_defs bit_simps)
  have "bit (sm_encode t start run_len) 15 = bit (maptype_val t) 0"
    unfolding sm_encode_def sm_code_defs by (simp only: bit_simps) simp
  then show "SM_TYPE_DECODE (sm_encode t start run_len) = maptype_val t"
    by (cases t) (simp_all add: SM_TYPE_DECODE_def BF64_DECODE_eq take_1_drop_bit del: take_bit_Suc_0)
  have "take_bit 15 (sm_encode t start run_len) = take_bit 15 (run_len - 1)"
    by (rule bit_word_eqI) (auto simp: sm_encode_def sm_code_defs bit_simps)
  then show "SM_RUN_DECODE (sm_encode t start run_len) = take_bit 15 (run_len - 1) + 1"
    by (simp add: sm_code_defs)
qed


section \<open>What a log means\<close>

text \<open>
  The set of allocated offsets after a log: an allocation entry adds its extent, a free
  entry takes it out, a debug entry does nothing. A log is valid when every allocation is of free
  offsets and every free of allocated ones.
\<close>

definition sm_region :: "space_map \<Rightarrow> u64 set" where
  "sm_region sm = {sm_start sm ..< sm_start sm + sm_size sm}"

definition sm_extent :: "space_map \<Rightarrow> u64 \<Rightarrow> u64 set" where
  "sm_extent sm e = {sm_entry_offset sm e ..< sm_entry_offset sm e + sm_entry_size sm e}"

definition sm_apply :: "space_map \<Rightarrow> u64 \<Rightarrow> u64 set \<Rightarrow> u64 set" where
  "sm_apply sm e S =
     (if SM_DEBUG_DECODE e \<noteq> 0 then S
      else if SM_TYPE_DECODE e = maptype_val SM_ALLOC then S \<union> sm_extent sm e else S - sm_extent sm e)"

definition sm_placed :: "space_map \<Rightarrow> u64 \<Rightarrow> bool" where
  "sm_placed sm e \<longleftrightarrow>
     sm_entry_offset sm e < sm_entry_offset sm e + sm_entry_size sm e \<and>
     P2PHASE (sm_entry_offset sm e) (push_bit (sm_shift sm) 1) = 0 \<and>
     P2PHASE (sm_entry_size sm e) (push_bit (sm_shift sm) 1) = 0 \<and>
     sm_start sm \<le> sm_entry_offset sm e \<and>
     sm_entry_offset sm e + sm_entry_size sm e \<le> sm_start sm + sm_size sm"

definition sm_entry_ok :: "space_map \<Rightarrow> u64 \<Rightarrow> u64 set \<Rightarrow> bool" where
  "sm_entry_ok sm e S \<longleftrightarrow>
     SM_DEBUG_DECODE e \<noteq> 0 \<or>
     sm_placed sm e \<and>
     (if SM_TYPE_DECODE e = maptype_val SM_ALLOC then sm_extent sm e \<inter> S = {} else sm_extent sm e \<subseteq> S)"

definition sm_log :: "space_map \<Rightarrow> u64 list \<Rightarrow> u64 set \<Rightarrow> u64 set" where
  "sm_log sm es S = fold (sm_apply sm) es S"

fun sm_log_ok :: "space_map \<Rightarrow> u64 list \<Rightarrow> u64 set \<Rightarrow> bool" where
  "sm_log_ok sm [] S \<longleftrightarrow> True"
| "sm_log_ok sm (e # es) S \<longleftrightarrow> sm_entry_ok sm e S \<and> sm_log_ok sm es (sm_apply sm e S)"

text \<open>What a range tree holds when the map is loaded: the allocated or the free offsets.\<close>

definition sm_view :: "space_map \<Rightarrow> maptype \<Rightarrow> u64 set \<Rightarrow> u64 set" where
  "sm_view sm maptype S = (case maptype of SM_ALLOC \<Rightarrow> S | SM_FREE \<Rightarrow> sm_region sm - S)"

lemma sm_log_simps [simp]:
  "sm_log sm [] S = S"
  "sm_log sm (e # es) S = sm_log sm es (sm_apply sm e S)"
  "sm_log sm (es @ fs) S = sm_log sm fs (sm_log sm es S)"
  by (simp_all add: sm_log_def)

lemma sm_log_ok_append [simp]:
  "sm_log_ok sm (es @ fs) S \<longleftrightarrow> sm_log_ok sm es S \<and> sm_log_ok sm fs (sm_log sm es S)"
  by (induction es arbitrary: S) simp_all

lemma sm_geometry_update [simp]:
  "sm_log (sm\<lparr>sm_data := d\<rparr>) = sm_log sm" "sm_log_ok (sm\<lparr>sm_data := d\<rparr>) = sm_log_ok sm"
  "sm_log (sm\<lparr>sm_phys := p\<rparr>) = sm_log sm" "sm_log_ok (sm\<lparr>sm_phys := p\<rparr>) = sm_log_ok sm"
  "sm_log (sm\<lparr>sm_alloc := a\<rparr>) = sm_log sm" "sm_log_ok (sm\<lparr>sm_alloc := a\<rparr>) = sm_log_ok sm"
  "sm_log (sm\<lparr>sm_length := l\<rparr>) = sm_log sm" "sm_log_ok (sm\<lparr>sm_length := l\<rparr>) = sm_log_ok sm"
proof -
  have same: "sm_log sm1 = sm_log sm2 \<and> sm_log_ok sm1 = sm_log_ok sm2"
    if "sm_start sm1 = sm_start sm2" "sm_size sm1 = sm_size sm2" "sm_shift sm1 = sm_shift sm2" for sm1 sm2
  proof -
    from that have e: "sm_entry_offset sm1 = sm_entry_offset sm2" "sm_entry_size sm1 = sm_entry_size sm2"
      by (simp_all add: fun_eq_iff sm_entry_offset_def sm_entry_size_def)
    with that have a: "sm_apply sm1 = sm_apply sm2" "sm_entry_ok sm1 = sm_entry_ok sm2"
      by (simp_all add: fun_eq_iff sm_apply_def sm_extent_def sm_entry_ok_def sm_placed_def)
    have "sm_log_ok sm1 es S = sm_log_ok sm2 es S" for es S by (induction es arbitrary: S) (simp_all add: a)
    then have "sm_log_ok sm1 = sm_log_ok sm2" by blast
    moreover have "sm_log sm1 = sm_log sm2" by (intro ext) (simp add: sm_log_def a)
    ultimately show ?thesis by blast
  qed
  show "sm_log (sm\<lparr>sm_data := d\<rparr>) = sm_log sm" "sm_log_ok (sm\<lparr>sm_data := d\<rparr>) = sm_log_ok sm"
    "sm_log (sm\<lparr>sm_phys := p\<rparr>) = sm_log sm" "sm_log_ok (sm\<lparr>sm_phys := p\<rparr>) = sm_log_ok sm"
    "sm_log (sm\<lparr>sm_alloc := a\<rparr>) = sm_log sm" "sm_log_ok (sm\<lparr>sm_alloc := a\<rparr>) = sm_log_ok sm"
    "sm_log (sm\<lparr>sm_length := l\<rparr>) = sm_log sm" "sm_log_ok (sm\<lparr>sm_length := l\<rparr>) = sm_log_ok sm"
    by (intro same [THEN conjunct1] same [THEN conjunct2]; simp)+
qed

lemma sm_type_cases: "SM_TYPE_DECODE e = maptype_val SM_ALLOC \<or> SM_TYPE_DECODE e = maptype_val SM_FREE"
  by (simp add: SM_TYPE_DECODE_def BF64_DECODE_eq take_1_drop_bit del: take_bit_Suc_0)

lemma sm_placed_region: "sm_placed sm e \<Longrightarrow> sm_extent sm e \<subseteq> sm_region sm"
  by (auto simp: sm_placed_def sm_extent_def sm_region_def)

lemma sm_apply_region: "sm_entry_ok sm e S \<Longrightarrow> S \<subseteq> sm_region sm \<Longrightarrow> sm_apply sm e S \<subseteq> sm_region sm"
  using sm_placed_region [of sm e] by (auto simp: sm_entry_ok_def sm_apply_def split: if_splits)

lemma sm_log_region: "sm_log_ok sm es S \<Longrightarrow> S \<subseteq> sm_region sm \<Longrightarrow> sm_log sm es S \<subseteq> sm_region sm"
  by (induction es arbitrary: S) (simp_all add: sm_apply_region)

section \<open>Loading\<close>

lemma space_map_load_entry_ok:
  assumes inv: "rt_inv rt" and reg: "sm_start sm < sm_start sm + sm_size sm" "S \<subseteq> sm_region sm"
    and cov: "covers (rt_segs rt) = sm_view sm t S" and ok: "sm_entry_ok sm e S"
  shows "\<exists>rt'. space_map_load_entry zr sm t e rt = Inr rt' \<and> rt_inv rt' \<and>
    covers (rt_segs rt') = sm_view sm t (sm_apply sm e S)"
proof (cases "SM_DEBUG_DECODE e = 0")
  case True
  let ?o = "sm_entry_offset sm e" and ?z = "sm_entry_size sm e"
  from ok True have p: "sm_placed sm e" by (simp add: sm_entry_ok_def)
  then have less: "?o < ?o + ?z" and sub: "{?o ..< ?o + ?z} \<subseteq> {sm_start sm ..< sm_start sm + sm_size sm}"
    by (auto simp: sm_placed_def)
  have reg': "covers (rt_segs rt) \<subseteq> {sm_start sm ..< sm_start sm + sm_size sm}"
    using reg(2) cov by (auto simp: sm_view_def sm_region_def split: maptype.splits)
  show ?thesis
  proof (cases "SM_TYPE_DECODE e = maptype_val t")
    case same: True
    with ok True have d: "{?o ..< ?o + ?z} \<inter> covers (rt_segs rt) = {}"
      by (cases t) (auto simp: sm_entry_ok_def cov sm_view_def sm_extent_def)
    from rts.add_ok [OF inv less d, of zr] obtain rt'
      where "range_tree_add zr rt ?o ?z = Inr rt'" "rt_inv rt'"
        "covers (rt_segs rt') = covers (rt_segs rt) \<union> {?o ..< ?o + ?z}" by blast
    moreover have "range_tree_space rt + ?z \<le> sm_size sm"
      by (rule rts.space_bound [OF inv less reg(1) reg' sub d])
    moreover have "sm_view sm t S \<union> sm_extent sm e = sm_view sm t (sm_apply sm e S)"
      using same True sub by (cases t) (auto simp: sm_view_def sm_apply_def sm_extent_def sm_region_def)
    ultimately show ?thesis
      using same True p by (simp add: space_map_load_entry_def sm_placed_def Let_def cov sm_extent_def)
  next
    case other: False
    with ok True sub sm_type_cases [of e] have d: "{?o ..< ?o + ?z} \<subseteq> covers (rt_segs rt)"
      by (cases t) (auto simp: sm_entry_ok_def cov sm_view_def sm_extent_def sm_region_def)
    from rts.remove_ok [OF inv less d, of zr] obtain rt'
      where "range_tree_remove zr rt ?o ?z = Inr rt'" "rt_inv rt'"
        "covers (rt_segs rt') = covers (rt_segs rt) - {?o ..< ?o + ?z}" by blast
    moreover have "sm_view sm t S - sm_extent sm e = sm_view sm t (sm_apply sm e S)"
      using other True sub sm_type_cases [of e]
      by (cases t) (auto simp: sm_view_def sm_apply_def sm_extent_def sm_region_def)
    ultimately show ?thesis
      using other True p by (simp add: space_map_load_entry_def sm_placed_def Let_def cov sm_extent_def)
  qed
qed (use inv cov in \<open>simp add: space_map_load_entry_def sm_apply_def\<close>)

lemma space_map_load_entries_ok:
  assumes "rt_inv rt" "sm_start sm < sm_start sm + sm_size sm" "S \<subseteq> sm_region sm"
    "covers (rt_segs rt) = sm_view sm t S" "sm_log_ok sm es S"
  shows "\<exists>rt'. space_map_load_entries zr sm t es rt = Inr rt' \<and> rt_inv rt' \<and>
    covers (rt_segs rt') = sm_view sm t (sm_log sm es S)"
  using assms
proof (induction es arbitrary: rt S)
  case (Cons e es)
  from Cons.prems(5) have e: "sm_entry_ok sm e S" "sm_log_ok sm es (sm_apply sm e S)" by simp_all
  from space_map_load_entry_ok [OF Cons.prems(1-4) e(1), of zr] obtain rt1
    where r: "space_map_load_entry zr sm t e rt = Inr rt1" "rt_inv rt1"
      "covers (rt_segs rt1) = sm_view sm t (sm_apply sm e S)" by blast
  from Cons.IH [OF r(2) Cons.prems(2) sm_apply_region [OF e(1) Cons.prems(3)] r(3) e(2)] r(1)
  show ?case by simp
qed simp


text \<open>The words one round of the loop reads are the next ones of the log.\<close>

lemma dmu_read_next:
  fixes off len bufsize :: u64
  assumes "off < len" "8 dvd unat off" "8 dvd unat len" "8 dvd unat bufsize" "unat len div 8 \<le> length data"
  defines "sz \<equiv> min (len - off) bufsize"
  shows "drop (unat off div 8) (take (unat len div 8) data) =
    dmu_read data off sz @ drop ((unat off + unat bufsize) div 8) (take (unat len div 8) data)"
    "P2PHASE sz 8 = 0"
proof -
  have "unat (len - off) = unat len - unat off" using assms(1) by (simp add: unat_sub)
  then have sz: "unat sz = min (unat len - unat off) (unat bufsize)"
    by (simp add: sz_def min_def word_le_nat_alt)
  obtain o' l b where n: "unat off = 8 * o'" "unat len = 8 * l" "unat bufsize = 8 * b"
    using assms(2-4) by (auto elim!: dvdE)
  then have z: "unat sz = 8 * min (l - o') b" by (auto simp: sz min_def)
  have "o' < l" using assms(1) n by (simp add: word_less_nat_alt)
  then have "dmu_read data off sz = take (min (l - o') b) (drop o' data)"
    using assms(5) n z by (simp add: dmu_read_def Let_def)
  moreover have "drop o' (take l data) = take (min (l - o') b) (drop o' data) @ drop (o' + b) (take l data)"
    using append_take_drop_id [of b "drop o' (take l data)"]
    by (simp add: drop_take min.commute add.commute)
  ultimately show "drop (unat off div 8) (take (unat len div 8) data) =
    dmu_read data off sz @ drop ((unat off + unat bufsize) div 8) (take (unat len div 8) data)"
    using n by simp
  have "take_bit 3 sz = 0"
    by (rule word_unat_eq_iff [THEN iffD2]) (simp add: unat_shift z)
  then show "P2PHASE sz 8 = 0" using P2PHASE_take_bit [of sz 3] by simp
qed


text \<open>The block offsets that the loop reads.\<close>

definition sm_blocks :: "u64 \<Rightarrow> u64 \<Rightarrow> u64 \<Rightarrow> u64 set" where
  "sm_blocks off len bufsize = {b. off \<le> b \<and> b < len \<and> unat bufsize dvd unat b}"

lemma sm_blocks_step:
  assumes "off < len" "unat bufsize dvd unat off" "unat len + unat bufsize < 2 ^ 64" "bufsize \<noteq> 0"
  shows "sm_blocks off len bufsize = insert off (sm_blocks (off + bufsize) len bufsize)"
    "unat (off + bufsize) = unat off + unat bufsize"
proof -
  show *: "unat (off + bufsize) = unat off + unat bufsize"
    using assms(1,3) by (simp add: unat_word_ariths word_less_nat_alt)
  have "off + bufsize \<le> b" if "off \<le> b" "b \<noteq> off" "unat bufsize dvd unat b" for b
  proof -
    from assms(2) that(3) obtain i j where "unat off = unat bufsize * i" "unat b = unat bufsize * j"
      by (auto elim!: dvdE)
    moreover have "unat off < unat b" using that(1,2) by (simp add: word_less_nat_alt [symmetric])
    ultimately have "unat off + unat bufsize \<le> unat b"
      by (metis Suc_leI mult_Suc_right mult_less_cancel1 mult_le_mono2 add.commute)
    with * show ?thesis by (simp add: word_le_nat_alt)
  qed
  moreover have "off \<le> off + bufsize" using * by (simp add: word_le_nat_alt)
  ultimately show "sm_blocks off len bufsize = insert off (sm_blocks (off + bufsize) len bufsize)"
    using assms(1,2) by (auto simp: sm_blocks_def dest: order.trans)
qed

lemma space_map_load_blocks_ok:
  assumes reg: "sm_start sm < sm_start sm + sm_size sm" "S \<subseteq> sm_region sm"
    and rt: "rt_inv rt" "covers (rt_segs rt) = sm_view sm t S"
    and len: "8 dvd unat (sm_length sm)" "unat (sm_length sm) div 8 \<le> length (sm_data sm)"
      "unat (sm_length sm) + unat bufsize < 2 ^ 64"
    and buf: "8 dvd unat bufsize" "bufsize \<noteq> 0" "unat bufsize dvd unat off"
    and log: "sm_log_ok sm (drop (unat off div 8) (take (unat (sm_length sm) div 8) (sm_data sm))) S"
  shows "\<exists>err rt'. space_map_load_blocks zr rd sm t bufsize off rt = Some (Inr (err, rt')) \<and> rt_inv rt' \<and>
    (if \<forall>b \<in> sm_blocks off (sm_length sm) bufsize. rd b = 0
     then err = 0 \<and> covers (rt_segs rt') =
       sm_view sm t (sm_log sm (drop (unat off div 8) (take (unat (sm_length sm) div 8) (sm_data sm))) S)
     else err \<noteq> 0 \<and> (\<exists>b \<in> sm_blocks off (sm_length sm) bufsize. err = rd b))"
  using reg(2) rt buf(3) log
proof (induction "unat (sm_length sm) - unat off" arbitrary: off rt S rule: less_induct)
  case less
  let ?log = "\<lambda>off. drop (unat off div 8) (take (unat (sm_length sm) div 8) (sm_data sm))"
  note unf = space_map_load_blocks.simps [of zr rd sm t bufsize off rt, unfolded Let_def]
  show ?case
  proof (cases "off < sm_length sm")
    case False
    then have "sm_blocks off (sm_length sm) bufsize = {}" "?log off = []"
      by (auto simp: sm_blocks_def word_le_nat_alt not_less div_le_mono)
    with False less.prems show ?thesis by (simp add: unf space_map_length_def)
  next
    case True
    define es where "es = dmu_read (sm_data sm) off (min (sm_length sm - off) bufsize)"
    have off8: "8 dvd unat off" using buf(1) less.prems(4) by (rule dvd_trans)
    note next_ok = dmu_read_next [OF True off8 len(1) buf(1) len(2)]
    note step = sm_blocks_step [OF True less.prems(4) len(3) buf(2)]
    have nz: "min (sm_length sm - off) bufsize \<noteq> 0" using True buf(2) by (auto simp: min_def)
    show ?thesis
    proof (cases "rd off = 0")
      case False
      with True next_ok(2) nz less.prems step(1) show ?thesis by (auto simp: unf space_map_length_def)
    next
      case rd: True
      have split: "?log off = es @ ?log (off + bufsize)" using next_ok(1) step(2) by (simp add: es_def)
      with less.prems(5) have ok: "sm_log_ok sm es S" "sm_log_ok sm (?log (off + bufsize)) (sm_log sm es S)"
        by simp_all
      from space_map_load_entries_ok [OF less.prems(2) reg(1) less.prems(1,3) ok(1), of zr] obtain rt1
        where r: "space_map_load_entries zr sm t es rt = Inr rt1" "rt_inv rt1"
          "covers (rt_segs rt1) = sm_view sm t (sm_log sm es S)" by blast
      have "unat (sm_length sm) - unat (off + bufsize) < unat (sm_length sm) - unat off"
        using True buf(2) step(2) unat_gt_0 [of bufsize] by (simp add: word_less_nat_alt)
      moreover have "unat bufsize dvd unat (off + bufsize)" using less.prems(4) step(2) by simp
      ultimately obtain err rt' where IH:
        "space_map_load_blocks zr rd sm t bufsize (off + bufsize) rt1 = Some (Inr (err, rt'))" "rt_inv rt'"
        "if \<forall>b \<in> sm_blocks (off + bufsize) (sm_length sm) bufsize. rd b = 0
           then err = 0 \<and> covers (rt_segs rt') = sm_view sm t (sm_log sm (?log (off + bufsize)) (sm_log sm es S))
           else err \<noteq> 0 \<and> (\<exists>b \<in> sm_blocks (off + bufsize) (sm_length sm) bufsize. err = rd b)"
        using less.hyps [OF _ sm_log_region [OF ok(1) less.prems(1)] r(2,3) _ ok(2)] by blast
      moreover have "space_map_load_blocks zr rd sm t bufsize off rt =
          space_map_load_blocks zr rd sm t bufsize (off + bufsize) rt1"
        using True rd next_ok(2) nz r(1) by (simp add: unf space_map_length_def es_def)
      ultimately show ?thesis
        by (intro exI [of _ err] exI [of _ rt']) (use IH in \<open>simp add: rd step(1) split split: if_splits\<close>)
    qed
  qed
qed


text \<open>
  The log of a map up to \<open>len\<close> bytes describes the allocated set \<open>S\<close>, of \<open>alloc\<close> offsets.
\<close>

definition sm_log_at :: "space_map \<Rightarrow> u64 \<Rightarrow> u64 \<Rightarrow> u64 set \<Rightarrow> bool" where
  "sm_log_at sm len alloc S \<longleftrightarrow>
     8 dvd unat len \<and> unat len div 8 \<le> length (sm_data sm) \<and>
     unat len + max (sm_blksz sm) 512 < 2 ^ 64 \<and>
     sm_log_ok sm (take (unat len div 8) (sm_data sm)) {} \<and>
     sm_log sm (take (unat len div 8) (sm_data sm)) {} = S \<and> unat alloc = card S"

text \<open>
  The geometry of a map: a non-empty region that does not wrap around, made of whole units, and
  few enough units for the 47-bit offsets of the entries; blocks of whole words.
\<close>

definition sm_geom :: "space_map \<Rightarrow> bool" where
  "sm_geom sm \<longleftrightarrow>
     sm_start sm < sm_start sm + sm_size sm \<and> sm_shift sm < 64 \<and>
     2 ^ sm_shift sm dvd unat (sm_start sm) \<and> 2 ^ sm_shift sm dvd unat (sm_size sm) \<and>
     unat (drop_bit (sm_shift sm) (sm_size sm)) \<le> 2 ^ 47 \<and>
     8 dvd sm_blksz sm \<and> 8 \<le> sm_blksz sm \<and> sm_blksz sm < 2 ^ 32"

abbreviation sm_synced :: "space_map \<Rightarrow> u64 set \<Rightarrow> bool" where
  "sm_synced sm S \<equiv> sm_log_at sm (sm_length sm) (sm_alloc sm) S"

abbreviation sm_syncing :: "space_map \<Rightarrow> u64 set \<Rightarrow> bool" where
  "sm_syncing sm S \<equiv> sm_log_at sm (smp_objsize (sm_phys sm)) (smp_alloc (sm_phys sm)) S"

lemma sm_log_at_region: "sm_log_at sm len alloc S \<Longrightarrow> S \<subseteq> sm_region sm"
  using sm_log_region [of sm _ "{}"] by (auto simp: sm_log_at_def)

definition sm_bufsize :: "space_map \<Rightarrow> u64" where
  "sm_bufsize sm = max (of_nat (sm_blksz sm)) 512"

lemma sm_bufsize_unat: "sm_geom sm \<Longrightarrow> unat (sm_bufsize sm) = max (sm_blksz sm) 512 \<and> 8 dvd unat (sm_bufsize sm)"
  by (auto simp: sm_bufsize_def sm_geom_def max_def word_le_nat_alt unat_of_nat)

lemma sm_view_card:
  assumes "sm_geom sm" "sm_synced sm S" "rt_inv rt" "covers (rt_segs rt) = sm_view sm t S"
  shows "range_tree_space rt = (if t = SM_FREE then sm_size sm - sm_alloc sm else sm_alloc sm)"
proof -
  have fin: "finite S" by simp
  have "card (sm_region sm - S) = card (sm_region sm) - card S"
    using sm_log_at_region [OF assms(2)] by (simp add: card_Diff_subset)
  moreover have "card S \<le> card (sm_region sm)"
    using sm_log_at_region [OF assms(2)] by (intro card_mono) auto
  moreover have "card (sm_region sm) = unat (sm_size sm)"
    using assms(1) by (simp add: sm_geom_def sm_region_def card_extent)
  moreover have "unat (sm_alloc sm) = card S" using assms(2) by (simp add: sm_log_at_def)
  ultimately have "unat (range_tree_space rt) =
      unat (if t = SM_FREE then sm_size sm - sm_alloc sm else sm_alloc sm)"
    using rts.space_card [OF assms(3)] assms(4) by (cases t) (simp_all add: sm_view_def unat_sub word_le_nat_alt)
  then show ?thesis by (rule unsigned_word_eqI)
qed

lemma space_map_load_start:
  assumes "sm_geom sm" "rt_inv rt" "range_tree_space rt = 0"
  obtains rt' where "rt_inv rt'" "covers (rt_segs rt') = sm_view sm t {}"
    "(if t = SM_FREE then
        (case range_tree_add zr rt (sm_start sm) (sm_size sm) of Inl x \<Rightarrow> Inl (Rt_failed x) | Inr rt \<Rightarrow> Inr rt)
      else Inr rt) = Inr rt'"
proof (cases t)
  case SM_ALLOC
  with assms rts.space_0_iff [OF assms(2)] show ?thesis by (intro that [of rt]) (simp_all add: sm_view_def)
next
  case SM_FREE
  have "sm_start sm < sm_start sm + sm_size sm" using assms(1) by (simp add: sm_geom_def)
  from rts.add_ok [OF assms(2) this, of zr] obtain rt' where "range_tree_add zr rt (sm_start sm) (sm_size sm) = Inr rt'"
      "rt_inv rt'" "covers (rt_segs rt') = sm_region sm"
    using rts.space_0_iff [OF assms(2)] assms(3) by (auto simp: sm_region_def)
  with SM_FREE show ?thesis by (intro that [of rt']) (simp_all add: sm_view_def)
qed

lemma space_map_load_ok:
  assumes geom: "sm_geom sm" and log: "sm_synced sm S" and rt: "rt_inv rt" "range_tree_space rt = 0"
  shows "\<exists>err rt'. space_map_load zr rd sm rt t = Some (Inr (err, rt')) \<and> rt_inv rt' \<and>
    (if \<forall>b \<in> sm_blocks 0 (sm_length sm) (sm_bufsize sm). rd b = 0
     then err = 0 \<and> covers (rt_segs rt') = sm_view sm t S
     else err \<noteq> 0 \<and> covers (rt_segs rt') = {} \<and> (\<exists>b \<in> sm_blocks 0 (sm_length sm) (sm_bufsize sm). err = rd b))"
proof -
  let ?ok = "\<forall>b \<in> sm_blocks 0 (sm_length sm) (sm_bufsize sm). rd b = 0"
  obtain rt1 where s: "rt_inv rt1" "covers (rt_segs rt1) = sm_view sm t {}"
    "(if t = SM_FREE then
        (case range_tree_add zr rt (sm_start sm) (sm_size sm) of Inl x \<Rightarrow> Inl (Rt_failed x) | Inr rt \<Rightarrow> Inr rt)
      else Inr rt) = Inr rt1"
    by (rule space_map_load_start [OF geom rt])
  note B = sm_bufsize_unat [OF geom]
  have "sm_bufsize sm \<noteq> 0" using B by (auto simp flip: unat_eq_0)
  from space_map_load_blocks_ok [of sm "{}" rt1 t "sm_bufsize sm" 0 zr rd] geom log s(1,2) B this
  obtain err rt2 where b: "space_map_load_blocks zr rd sm t (sm_bufsize sm) 0 rt1 = Some (Inr (err, rt2))" "rt_inv rt2"
    "if ?ok then err = 0 \<and> covers (rt_segs rt2) = sm_view sm t S
     else err \<noteq> 0 \<and> (\<exists>b \<in> sm_blocks 0 (sm_length sm) (sm_bufsize sm). err = rd b)"
    unfolding sm_geom_def sm_log_at_def by auto
  show ?thesis
  proof (cases ?ok)
    case True
    with b(3) have e: "err = 0" and c: "covers (rt_segs rt2) = sm_view sm t S" by simp_all
    from sm_view_card [OF geom log b(2) c] True e c b(1,2) s(3) rt(2) show ?thesis
      by (simp add: space_map_load_def sm_bufsize_def [symmetric] Let_def space_map_allocated_def)
  next
    case False
    with b s(3) rt(2) range_tree_vacate_all [OF b(2)] show ?thesis
      by (simp add: space_map_load_def sm_bufsize_def [symmetric] Let_def)
  qed
qed


section \<open>Writing\<close>

text \<open>The entries of a segment of \<open>sz\<close> units from unit \<open>start\<close> on.\<close>

function sm_runs :: "maptype \<Rightarrow> u64 \<Rightarrow> u64 \<Rightarrow> u64 list" where
  "sm_runs t start sz =
     (if sz = 0 then []
      else (let run_len = min sz SM_RUN_MAX
            in sm_encode t start run_len # sm_runs t (start + run_len) (sz - run_len)))"
  by pat_completeness auto
termination
proof (relation "measure (\<lambda>(_, _, sz). unat sz)", goal_cases)
  case (2 t start sz x)
  then have "0 < unat x" "unat x \<le> unat sz"
    by (auto simp: SM_RUN_MAX_eq min_def unat_gt_0 word_le_nat_alt)
  then show ?case using \<open>sz \<noteq> 0\<close> by (auto simp: unat_sub word_le_nat_alt)
qed simp

declare sm_runs.simps [simp del]
declare space_map_write_runs.simps [simp del]

lemma sm_runs_0 [simp]: "sm_runs t start 0 = []"
  by (simp add: sm_runs.simps)

definition sm_words :: "space_map \<Rightarrow> u64 list" where
  "sm_words sm = take (unat (smp_objsize (sm_phys sm)) div 8) (sm_data sm)"

text \<open>
  A map whose object holds all the words up to \<open>smp_objsize\<close>, with room for \<open>n\<close> more.
\<close>

definition sm_room :: "space_map \<Rightarrow> nat \<Rightarrow> bool" where
  "sm_room sm n \<longleftrightarrow>
     8 dvd unat (smp_objsize (sm_phys sm)) \<and> unat (smp_objsize (sm_phys sm)) div 8 \<le> length (sm_data sm) \<and>
     unat (smp_objsize (sm_phys sm)) + 8 * n < 2 ^ 64"

lemma sm_room_words:
  assumes "sm_room sm n"
  shows "sm_room sm m \<longleftrightarrow> 8 * (length (sm_words sm) + m) < 2 ^ 64" "unat (smp_objsize (sm_phys sm)) = 8 * length (sm_words sm)"
  using assms by (auto simp: sm_room_def sm_words_def)

lemma sm_words_take:
  "n \<le> length (sm_words sm) \<Longrightarrow> take n (sm_data sm) = take n (sm_words sm)"
  "length (sm_words sm) \<le> length (sm_data sm)"
  by (simp_all add: sm_words_def)

text \<open>\<open>sm'\<close> is \<open>sm\<close> with more words in its object.\<close>

definition sm_grown :: "space_map \<Rightarrow> space_map \<Rightarrow> bool" where
  "sm_grown sm sm' \<longleftrightarrow>
     (\<exists>d n. sm' = sm\<lparr>sm_data := d, sm_phys := (sm_phys sm)\<lparr>smp_objsize := n\<rparr>\<rparr>)"

lemma sm_grown_refl: "sm_grown sm sm"
  unfolding sm_grown_def by (intro exI [of _ "sm_data sm"] exI [of _ "smp_objsize (sm_phys sm)"]) simp

lemma sm_grown_trans: "sm_grown sm sm' \<Longrightarrow> sm_grown sm' sm'' \<Longrightarrow> sm_grown sm sm''"
  unfolding sm_grown_def by (elim exE, hypsubst, simp) (intro exI, rule refl)

lemma space_map_flush_ok:
  assumes "sm_room sm n" and "length ws \<le> n" and "sm' = space_map_flush sm ws (of_nat (8 * length ws))"
  shows "sm_words sm' = sm_words sm @ ws" "sm_room sm' (n - length ws)" "sm_grown sm sm'"
proof -
  let ?o = "unat (smp_objsize (sm_phys sm))"
  have o: "8 dvd ?o" "?o div 8 \<le> length (sm_data sm)" "?o + 8 * n < 2 ^ 64" using assms(1) by (auto simp: sm_room_def)
  then have new: "unat (smp_objsize (sm_phys sm')) = ?o + 8 * length ws"
    using assms(2,3) by (simp add: space_map_flush_def unat_word_ariths unat_of_nat mod_mult_left_eq
        flip: of_nat_mult)
  show "sm_grown sm sm'" using assms(3) by (auto simp: sm_grown_def space_map_flush_def)
  show "sm_words sm' = sm_words sm @ ws"
    unfolding sm_words_def new using o(1,2) assms(3) by (auto simp: space_map_flush_def dmu_write_def Let_def elim!: dvdE)
  show "sm_room sm' (n - length ws)"
    unfolding sm_room_def new using o assms(2,3)
    by (auto simp: space_map_flush_def dmu_write_def Let_def diff_mult_distrib2)
qed

lemma space_map_write_runs_ok:
  assumes "space_map_write_runs t start sz (sm, buf, n) = (sm', buf', n')"
    and "sm_room sm (length buf + length (sm_runs t start sz))" and "length buf \<le> sm_blksz sm div 8"
    and "8 dvd sm_blksz sm" "8 \<le> sm_blksz sm"
  shows "sm_words sm' @ buf' = sm_words sm @ buf @ sm_runs t start sz \<and> sm_room sm' (length buf') \<and>
    sm_grown sm sm' \<and> length buf' \<le> sm_blksz sm div 8 \<and> (buf \<noteq> [] \<longrightarrow> buf' \<noteq> []) \<and>
    n' = n + of_nat (length (sm_runs t start sz))"
  using assms
proof (induction t start sz arbitrary: sm buf n rule: sm_runs.induct)
  case (1 t start sz)
  show ?case
  proof (cases "sz = 0")
    case True
    with 1 show ?thesis by (simp add: space_map_write_runs.simps sm_grown_refl)
  next
    case False
    let ?r = "min sz SM_RUN_MAX"
    let ?e = "sm_encode t start ?r" and ?rest = "sm_runs t (start + ?r) (sz - ?r)"
    have runs: "sm_runs t start sz = ?e # ?rest" using False by (simp add: sm_runs.simps [of t start sz] Let_def)
    show ?thesis
    proof (cases "length buf = sm_blksz sm div 8")
      case full: True
      define sm1 where "sm1 = space_map_flush sm buf (of_nat (8 * length buf))"
      note F = space_map_flush_ok [OF 1(3) _ sm1_def]
      have "space_map_write_runs t (start + ?r) (sz - ?r) (sm1, [?e], n + 1) = (sm', buf', n')"
        using 1(2,5) False full by (simp add: space_map_write_runs.simps [of t start sz] sm1_def sm_encode_def Let_def)
      moreover have g: "sm_grown sm sm1" using F by simp
      moreover from g have "sm_blksz sm1 = sm_blksz sm" by (auto simp: sm_grown_def)
      ultimately have "sm_words sm' @ buf' = sm_words sm1 @ [?e] @ ?rest \<and> sm_room sm' (length buf') \<and>
        sm_grown sm1 sm' \<and> length buf' \<le> sm_blksz sm div 8 \<and> buf' \<noteq> [] \<and> n' = n + 1 + of_nat (length ?rest)"
        using 1(1) [OF False refl, of sm1 "[?e]" "n + 1"] 1(5,6) F(2) runs by simp
      with F(1) g runs show ?thesis by (auto intro: sm_grown_trans)
    next
      case room: False
      then have "space_map_write_runs t (start + ?r) (sz - ?r) (sm, buf @ [?e], n + 1) = (sm', buf', n')"
        using 1(2) False by (simp add: space_map_write_runs.simps [of t start sz] sm_encode_def Let_def)
      with 1(1) [OF False refl, of sm "buf @ [?e]" "n + 1"] 1(3-6) room runs show ?thesis by simp
    qed
  qed
qed


text \<open>The byte offset of a unit of the region.\<close>

definition sm_unit :: "space_map \<Rightarrow> u64 \<Rightarrow> u64" where
  "sm_unit sm u = sm_start sm + push_bit (sm_shift sm) u"

abbreviation sm_units :: "space_map \<Rightarrow> u64" where
  "sm_units sm \<equiv> drop_bit (sm_shift sm) (sm_size sm)"

lemma sm_units_mult:
  assumes "sm_geom sm"
  shows "unat (sm_units sm) * 2 ^ sm_shift sm = unat (sm_size sm)"
  using assms by (simp add: sm_geom_def unat_shift)

lemma sm_end_unat: "sm_geom sm \<Longrightarrow> unat (sm_start sm + sm_size sm) = unat (sm_start sm) + unat (sm_size sm)"
  by (rule unat_add_no_wrap) (simp add: sm_geom_def order.strict_implies_order)

lemma sm_unit_unat:
  assumes "sm_geom sm" and "u \<le> sm_units sm"
  shows "unat (push_bit (sm_shift sm) u) = unat u * 2 ^ sm_shift sm"
    "unat (sm_unit sm u) = unat (sm_start sm) + unat u * 2 ^ sm_shift sm"
    "unat u * 2 ^ sm_shift sm \<le> unat (sm_size sm)"
proof -
  show le: "unat u * 2 ^ sm_shift sm \<le> unat (sm_size sm)"
    using assms by (simp add: sm_units_mult [OF assms(1), symmetric] word_le_nat_alt)
  then have "unat u * 2 ^ sm_shift sm < 2 ^ 64" using unat_u64_less [of "sm_size sm"] by simp
  then show p: "unat (push_bit (sm_shift sm) u) = unat u * 2 ^ sm_shift sm"
    by (simp add: unat_shift)
  have "unat (sm_start sm) + unat (sm_size sm) < 2 ^ 64"
    using sm_end_unat [OF assms(1)] unat_u64_less [of "sm_start sm + sm_size sm"] by simp
  with le p show "unat (sm_unit sm u) = unat (sm_start sm) + unat u * 2 ^ sm_shift sm"
    by (simp add: sm_unit_def unat_word_ariths)
qed

lemma sm_unit_mono:
  assumes "sm_geom sm" "u < v" "v \<le> sm_units sm"
  shows "sm_unit sm u < sm_unit sm v"
  using assms(2,3) by (simp add: word_less_nat_alt sm_unit_unat [OF assms(1)] order.trans [OF order.strict_implies_order])

lemma take_bit_unat_self: "unat (x :: u64) < 2 ^ n \<Longrightarrow> take_bit n x = x"
  by (intro word_unat_eq_iff [THEN iffD2]) (simp add: unat_shift)

lemma sm_encode_placed:
  assumes geom: "sm_geom sm" and run: "u < u + r" "u + r \<le> sm_units sm" "r \<le> SM_RUN_MAX"
  shows "sm_placed sm (sm_encode t u r)" "sm_extent sm (sm_encode t u r) = {sm_unit sm u ..< sm_unit sm (u + r)}"
proof -
  let ?e = "sm_encode t u r"
  have r: "0 < unat r" using run(1) by (auto simp: unat_gt_0)
  have U: "unat (sm_units sm) \<le> 2 ^ 47" using geom by (simp add: sm_geom_def)
  have "unat u < 2 ^ 47" using run U by (simp add: word_less_nat_alt word_le_nat_alt)
  then have u: "take_bit 47 u = u" by (rule take_bit_unat_self)
  have "unat (r - 1) < 2 ^ 15"
    using r run(3) by (simp add: SM_RUN_MAX_eq word_le_nat_alt unat_sub)
  then have "take_bit 15 (r - 1) = r - 1" by (rule take_bit_unat_self)
  then have off: "sm_entry_offset sm ?e = sm_unit sm u" and z: "sm_entry_size sm ?e = push_bit (sm_shift sm) r"
    by (simp_all add: sm_entry_offset_def sm_entry_size_def sm_decode_fields u sm_unit_def)
  have fin: "sm_unit sm u + push_bit (sm_shift sm) r = sm_unit sm (u + r)"
    by (simp add: sm_unit_def push_bit_add)
  have less: "sm_unit sm u < sm_unit sm (u + r)" by (rule sm_unit_mono [OF geom run(1,2)])
  have le: "u \<le> sm_units sm" using run(1,2) by simp
  have "2 ^ sm_shift sm dvd unat (sm_unit sm u)"
    using geom by (simp add: sm_unit_unat [OF geom le] sm_geom_def)
  then have "take_bit (sm_shift sm) (sm_unit sm u) = 0"
    by (intro word_unat_eq_iff [THEN iffD2]) (simp add: unat_shift)
  moreover have "take_bit (sm_shift sm) (push_bit (sm_shift sm) r) = 0" by (simp add: take_bit_push_bit)
  moreover have "sm_start sm \<le> sm_unit sm u" using sm_unit_unat [OF geom le] by (simp add: word_le_nat_alt)
  moreover have "sm_unit sm (u + r) \<le> sm_start sm + sm_size sm"
    using sm_unit_unat [OF geom run(2)] by (simp add: word_le_nat_alt sm_end_unat [OF geom])
  ultimately show "sm_placed sm ?e" "sm_extent sm ?e = {sm_unit sm u ..< sm_unit sm (u + r)}"
    using less by (simp_all add: sm_placed_def sm_extent_def off z fin push_bit_eq_mult [of _ 1] P2PHASE_take_bit)
qed


text \<open>The change of the allocated set that writing offsets of a type makes, and when it is allowed.\<close>

definition sm_change :: "maptype \<Rightarrow> u64 set \<Rightarrow> u64 set \<Rightarrow> u64 set" where
  "sm_change t X S = (if t = SM_ALLOC then S \<union> X else S - X)"

definition sm_allowed :: "maptype \<Rightarrow> u64 set \<Rightarrow> u64 set \<Rightarrow> bool" where
  "sm_allowed t X S \<longleftrightarrow> (if t = SM_ALLOC then X \<inter> S = {} else X \<subseteq> S)"

lemma sm_apply_encode:
  "sm_apply sm (sm_encode t u r) S = sm_change t (sm_extent sm (sm_encode t u r)) S"
  "sm_entry_ok sm (sm_encode t u r) S \<longleftrightarrow>
     sm_placed sm (sm_encode t u r) \<and> sm_allowed t (sm_extent sm (sm_encode t u r)) S"
  by (cases t; simp add: sm_apply_def sm_entry_ok_def sm_decode_debug sm_decode_fields sm_change_def sm_allowed_def)+

lemma sm_change_Un:
  "sm_change t (X \<union> Y) S = sm_change t Y (sm_change t X S)"
  "X \<inter> Y = {} \<Longrightarrow> sm_allowed t (X \<union> Y) S \<Longrightarrow> sm_allowed t X S \<and> sm_allowed t Y (sm_change t X S)"
  "sm_change t {} S = S"
  by (cases t; auto simp: sm_change_def sm_allowed_def)+

lemma sm_runs_log:
  assumes "sm_geom sm" and "u \<le> u + z" "u + z \<le> sm_units sm" and "sm_allowed t {sm_unit sm u ..< sm_unit sm (u + z)} S"
  shows "sm_log_ok sm (sm_runs t u z) S \<and>
    sm_log sm (sm_runs t u z) S = sm_change t {sm_unit sm u ..< sm_unit sm (u + z)} S"
  using assms(2-)
proof (induction t u z arbitrary: S rule: sm_runs.induct)
  case (1 t u z)
  show ?case
  proof (cases "z = 0")
    case False
    let ?r = "min z SM_RUN_MAX"
    let ?e = "sm_encode t u ?r" and ?rest = "sm_runs t (u + ?r) (z - ?r)"
    have runs: "sm_runs t u z = ?e # ?rest" using False by (simp add: sm_runs.simps [of t u z] Let_def)
    have zn: "unat (u + z) = unat u + unat z" using 1(2) by (rule unat_add_no_wrap)
    have r: "0 < unat ?r" "unat ?r \<le> unat z"
      using False by (auto simp: min_def SM_RUN_MAX_eq unat_gt_0 word_le_nat_alt)
    have rn: "unat (u + ?r) = unat u + unat ?r"
      using r(2) zn unat_u64_less [of "u + z"] by (simp add: unat_word_ariths)
    have eq: "u + ?r + (z - ?r) = u + z" by simp
    have less: "u < u + ?r" and le: "u + ?r \<le> u + z"
      using rn zn r by (simp_all add: word_less_nat_alt word_le_nat_alt)
    have U: "u + ?r \<le> sm_units sm" using le 1(3) by simp
    note P = sm_encode_placed [OF assms(1) less U min.cobounded2, where t = t]
    have m: "sm_unit sm u \<le> sm_unit sm (u + ?r)" "sm_unit sm (u + ?r) \<le> sm_unit sm (u + z)"
      using sm_unit_mono [OF assms(1) less U] sm_unit_mono [OF assms(1) _ 1(3), of "u + ?r"] le
      by (auto simp: order.order_iff_strict)
    have split: "{sm_unit sm u ..< sm_unit sm (u + z)} =
        {sm_unit sm u ..< sm_unit sm (u + ?r)} \<union> {sm_unit sm (u + ?r) ..< sm_unit sm (u + z)}"
      using seg_cover_join [OF m] by simp
    let ?S = "sm_change t {sm_unit sm u ..< sm_unit sm (u + ?r)} S"
    have ok: "sm_allowed t {sm_unit sm u ..< sm_unit sm (u + ?r)} S"
      "sm_allowed t {sm_unit sm (u + ?r) ..< sm_unit sm (u + z)} ?S"
      using sm_change_Un(2) [OF _ 1(4) [unfolded split]] by auto
    have "sm_log_ok sm ?rest ?S \<and> sm_log sm ?rest ?S = sm_change t {sm_unit sm (u + ?r) ..< sm_unit sm (u + z)} ?S"
      using 1(1) [OF False refl, of ?S] ok(2) 1(3) le unfolding eq by simp
    moreover have "sm_apply sm ?e S = ?S" "sm_entry_ok sm ?e S"
      using P ok(1) by (simp_all add: sm_apply_encode)
    ultimately show ?thesis by (simp add: runs split sm_change_Un(1))
  qed (simp add: sm_change_Un)
qed

text \<open>Segments that lie in the region on unit boundaries.\<close>

definition sm_aligned :: "space_map \<Rightarrow> range_seg \<Rightarrow> bool" where
  "sm_aligned sm rs \<longleftrightarrow>
     sm_start sm \<le> rs_start rs \<and> rs_end rs \<le> sm_start sm + sm_size sm \<and>
     2 ^ sm_shift sm dvd unat (rs_start rs) \<and> 2 ^ sm_shift sm dvd unat (rs_end rs)"

definition sm_seg_entries :: "space_map \<Rightarrow> maptype \<Rightarrow> range_seg \<Rightarrow> u64 list" where
  "sm_seg_entries sm t rs =
     sm_runs t (drop_bit (sm_shift sm) (rs_start rs - sm_start sm)) (drop_bit (sm_shift sm) (rs_end rs - rs_start rs))"

lemma push_drop_aligned: "2 ^ n dvd unat (x :: u64) \<Longrightarrow> push_bit n (drop_bit n x) = x"
  by (intro word_unat_eq_iff [THEN iffD2])
    (use unat_u64_less [of x] in \<open>simp add: unat_shift\<close>)

lemma drop_bit_add_aligned:
  assumes "2 ^ n dvd unat (x :: u64)" "2 ^ n dvd unat y" "x \<le> x + y"
  shows "drop_bit n x + drop_bit n y = drop_bit n (x + y)" "drop_bit n x \<le> drop_bit n x + drop_bit n y"
proof -
  have "unat (drop_bit n x) + unat (drop_bit n y) = unat (drop_bit n (x + y))"
    using assms by (simp add: unat_shift unat_add_no_wrap div_add)
  moreover from this have "unat (drop_bit n x + drop_bit n y) = unat (drop_bit n x) + unat (drop_bit n y)"
    using unat_u64_less [of "drop_bit n (x + y)"] by (simp add: unat_word_ariths)
  ultimately show "drop_bit n x + drop_bit n y = drop_bit n (x + y)" "drop_bit n x \<le> drop_bit n x + drop_bit n y"
    by (simp_all add: word_unat_eq_iff word_le_nat_alt)
qed

lemma sm_seg_log:
  assumes geom: "sm_geom sm" and al: "sm_aligned sm rs" and less: "rs_start rs < rs_end rs"
    and ok: "sm_allowed t (seg_cover rs) S"
  shows "sm_log_ok sm (sm_seg_entries sm t rs) S \<and> sm_log sm (sm_seg_entries sm t rs) S = sm_change t (seg_cover rs) S"
    "push_bit (sm_shift sm) (drop_bit (sm_shift sm) (rs_end rs - rs_start rs)) = rs_end rs - rs_start rs"
proof -
  let ?x = "rs_start rs - sm_start sm" and ?y = "rs_end rs - rs_start rs" and ?n = "sm_shift sm"
  have g: "2 ^ ?n dvd unat (sm_start sm)" "sm_start sm < sm_start sm + sm_size sm" using geom by (simp_all add: sm_geom_def)
  have x: "unat ?x = unat (rs_start rs) - unat (sm_start sm)" and y: "unat ?y = unat (rs_end rs) - unat (rs_start rs)"
    using al less by (simp_all add: sm_aligned_def unat_sub)
  have xd: "2 ^ ?n dvd unat ?x" and yd: "2 ^ ?n dvd unat ?y"
    using g(1) al unfolding x y by (simp_all add: sm_aligned_def)
  have xy: "?x + ?y = rs_end rs - sm_start sm" by simp
  have no: "?x \<le> ?x + ?y"
    unfolding xy using al less by (simp add: word_le_nat_alt word_less_nat_alt unat_sub sm_aligned_def)
  note D = drop_bit_add_aligned [OF xd yd no]
  have xyd: "2 ^ ?n dvd unat (?x + ?y)" using xd yd by (simp only: unat_add_no_wrap [OF no] dvd_add)
  have "unat (?x + ?y) \<le> unat (sm_size sm)"
    unfolding xy using al less
    by (auto simp: sm_aligned_def unat_sub word_le_nat_alt word_less_nat_alt sm_end_unat [OF geom])
  then have U: "drop_bit ?n ?x + drop_bit ?n ?y \<le> sm_units sm"
    by (simp only: D(1) word_le_nat_alt unat_shift div_le_mono)
  have s: "sm_unit sm (drop_bit ?n ?x) = rs_start rs" by (simp add: sm_unit_def push_drop_aligned [OF xd])
  have e: "sm_unit sm (drop_bit ?n ?x + drop_bit ?n ?y) = rs_end rs"
    using push_drop_aligned [OF xyd] by (simp add: D(1) sm_unit_def xy)
  from sm_runs_log [OF geom D(2) U, of t S] ok
  show "sm_log_ok sm (sm_seg_entries sm t rs) S \<and> sm_log sm (sm_seg_entries sm t rs) S = sm_change t (seg_cover rs) S"
    by (simp add: sm_seg_entries_def s e seg_cover_def)
  show "push_bit ?n (drop_bit ?n ?y) = ?y" by (rule push_drop_aligned [OF yd])
qed


lemma sm_runs_length: "length (sm_runs t u z) = (unat z + 32767) div 32768"
proof (induction t u z rule: sm_runs.induct)
  case (1 t u z)
  show ?case
  proof (cases "z = 0")
    case False
    have "unat (z - min z SM_RUN_MAX) = unat z - min (unat z) 32768"
      by (auto simp: min_def SM_RUN_MAX_eq word_le_nat_alt unat_sub)
    with 1 [OF False refl] False show ?thesis
      by (auto simp: sm_runs.simps [of t u z] Let_def min_def unat_eq_zero [symmetric] simp del: unat_eq_zero)
  qed simp
qed

definition sm_segs_entries :: "space_map \<Rightarrow> maptype \<Rightarrow> range_seg list \<Rightarrow> u64 list" where
  "sm_segs_entries sm t segs = concat (map (sm_seg_entries sm t) segs)"

definition sm_seg_units :: "space_map \<Rightarrow> range_seg \<Rightarrow> u64" where
  "sm_seg_units sm rs = drop_bit (sm_shift sm) (rs_end rs - rs_start rs)"

lemma space_map_write_segs_ok:
  assumes "fold (space_map_write_seg t) segs ((sm, buf, n), tot) = ((sm', buf', n'), tot')"
    and "sm_room sm (length buf + length (sm_segs_entries sm t segs))" and "length buf \<le> sm_blksz sm div 8"
    and "8 dvd sm_blksz sm" "8 \<le> sm_blksz sm"
  shows "sm_words sm' @ buf' = sm_words sm @ buf @ sm_segs_entries sm t segs \<and> sm_room sm' (length buf') \<and>
    sm_grown sm sm' \<and> (buf \<noteq> [] \<longrightarrow> buf' \<noteq> []) \<and> n' = n + of_nat (length (sm_segs_entries sm t segs)) \<and>
    tot' = tot + (\<Sum>rs \<leftarrow> segs. push_bit (sm_shift sm) (sm_seg_units sm rs))"
  using assms
proof (induction segs arbitrary: sm buf n tot)
  case (Cons rs segs)
  obtain sm1 buf1 n1 where r: "space_map_write_runs t (drop_bit (sm_shift sm) (rs_start rs - sm_start sm))
      (drop_bit (sm_shift sm) (rs_end rs - rs_start rs)) (sm, buf, n) = (sm1, buf1, n1)"
    by (metis prod_cases3)
  have "sm_room sm (length buf + length (sm_seg_entries sm t rs))"
    using Cons.prems(2) by (auto simp: sm_room_def sm_segs_entries_def)
  note R = space_map_write_runs_ok [OF r this [unfolded sm_seg_entries_def] Cons.prems(3-5), folded sm_seg_entries_def]
  from R have g: "sm_blksz sm1 = sm_blksz sm" "sm_shift sm1 = sm_shift sm" "sm_start sm1 = sm_start sm"
    by (auto simp: sm_grown_def)
  then have "sm_seg_entries sm1 t = sm_seg_entries sm t" and "sm_seg_units sm1 = sm_seg_units sm"
    by (simp_all add: fun_eq_iff sm_seg_entries_def sm_seg_units_def)
  then have e: "sm_segs_entries sm1 t segs = sm_segs_entries sm t segs" "sm_seg_units sm1 = sm_seg_units sm"
    by (simp_all add: sm_segs_entries_def)
  have "length (sm_words sm1) + length buf1 = length (sm_words sm) + length buf + length (sm_seg_entries sm t rs)"
    using R by (metis add.assoc length_append)
  then have "sm_room sm1 (length buf1 + length (sm_segs_entries sm t segs))"
    using R Cons.prems(2) sm_room_words [of sm1 "length buf1"] sm_room_words [OF Cons.prems(2)]
    by (simp add: sm_segs_entries_def)
  with Cons.IH [of sm1 buf1 n1 "tot + push_bit (sm_shift sm) (sm_seg_units sm rs)"] Cons.prems(1,4,5) R g e r
  show ?case
    by (auto simp: space_map_write_seg_def sm_segs_entries_def sm_seg_units_def intro: sm_grown_trans)
qed (simp add: sm_segs_entries_def sm_grown_refl)


lemma sm_segs_log:
  assumes "sm_geom sm" and "\<forall>rs \<in> set segs. sm_aligned sm rs" and "segs_ok segs" and "sm_allowed t (covers segs) S"
  shows "sm_log_ok sm (sm_segs_entries sm t segs) S \<and>
    sm_log sm (sm_segs_entries sm t segs) S = sm_change t (covers segs) S"
  using assms(2-)
proof (induction segs arbitrary: S)
  case (Cons rs segs)
  have "seg_cover rs \<inter> covers segs = {}"
    using Cons.prems(2) by (fastforce simp: seg_cover_def covers_def)
  then have "sm_allowed t (seg_cover rs) S" "sm_allowed t (covers segs) (sm_change t (seg_cover rs) S)"
    using sm_change_Un(2) [of "seg_cover rs" "covers segs" t S] Cons.prems(3) by simp_all
  with sm_seg_log(1) [OF assms(1), of rs t S] Cons show ?case
    by (simp add: sm_segs_entries_def sm_change_Un(1))
qed (simp add: sm_segs_entries_def sm_change_Un)

lemma sm_segs_total:
  assumes "sm_geom sm" and "\<forall>rs \<in> set segs. sm_aligned sm rs" and "segs_ok segs"
  shows "(\<Sum>rs \<leftarrow> segs. push_bit (sm_shift sm) (sm_seg_units sm rs)) = seg_space (mset segs)"
  using assms(2-)
proof (induction segs)
  case (Cons rs segs)
  have "sm_allowed SM_FREE (seg_cover rs) UNIV" by (simp add: sm_allowed_def)
  with sm_seg_log(2) [OF assms(1), of rs SM_FREE] Cons show ?case by (simp add: sm_seg_units_def)
qed simp

lemma sm_segs_in_region:
  "\<forall>rs \<in> set segs. sm_aligned sm rs \<Longrightarrow> covers segs \<subseteq> sm_region sm"
  by (fastforce simp: covers_def seg_cover_def sm_aligned_def sm_region_def)

text \<open>A tree of the region needs at most one entry for every unit.\<close>

lemma sm_segs_length:
  assumes "sm_geom sm" and "\<forall>rs \<in> set (rt_segs rt). sm_aligned sm rs" and "rt_inv rt"
  shows "length (sm_segs_entries sm t (rt_segs rt)) \<le> 2 ^ 47"
proof -
  let ?n = "\<Sum>rs \<leftarrow> rt_segs rt. unat (sm_seg_units sm rs)"
  have "length (sm_segs_entries sm t segs) \<le> (\<Sum>rs \<leftarrow> segs. unat (sm_seg_units sm rs))" for segs
  proof (induction segs)
    case (Cons rs segs)
    have "length (sm_seg_entries sm t rs) \<le> unat (sm_seg_units sm rs)"
      by (cases "unat (sm_seg_units sm rs)") (auto simp: sm_seg_entries_def sm_runs_length sm_seg_units_def [symmetric])
    with Cons show ?case by (simp add: sm_segs_entries_def)
  qed (simp add: sm_segs_entries_def)
  moreover have "?n * 2 ^ sm_shift sm \<le> card (covers (rt_segs rt))"
  proof -
    have "segs_ok segs \<Longrightarrow> (\<Sum>rs \<leftarrow> segs. unat (sm_seg_units sm rs)) * 2 ^ sm_shift sm \<le>
        (\<Sum>s \<leftarrow> segs. unat (rs_end s) - unat (rs_start s))" for segs
    proof (induction segs)
      case (Cons rs segs)
      have "unat (rs_end rs - rs_start rs) = unat (rs_end rs) - unat (rs_start rs)"
        by (rule unat_sub) (use Cons.prems in auto)
      then have "unat (sm_seg_units sm rs) * 2 ^ sm_shift sm \<le> unat (rs_end rs) - unat (rs_start rs)"
        by (simp add: sm_seg_units_def unat_shift)
      with Cons show ?case by (simp add: distrib_right)
    qed simp
    from this [OF rt_invD(2) [OF assms(3)]] show ?thesis
      using seg_space_exact [OF rt_invD(2) [OF assms(3)]] rt_space_card [OF assms(3)] rt_invD(4) [OF assms(3)]
      by simp
  qed
  moreover have "card (covers (rt_segs rt)) \<le> unat (sm_size sm)"
    using card_mono [OF _ sm_segs_in_region [OF assms(2)]] assms(1) card_extent [of "sm_start sm" "sm_size sm"]
    by (simp add: sm_region_def sm_geom_def)
  ultimately have "length (sm_segs_entries sm t (rt_segs rt)) * 2 ^ sm_shift sm \<le> unat (sm_units sm) * 2 ^ sm_shift sm"
    by (simp add: sm_units_mult [OF assms(1)]) (meson mult_le_mono1 order.trans)
  with assms(1) show ?thesis by (simp add: sm_geom_def)
qed

lemma sm_seg_entries_count:
  assumes "sm_geom sm" "sm_aligned sm rs" "rs_start rs < rs_end rs"
  shows "howmany (sm_seg_units sm rs) SM_RUN_MAX = of_nat (length (sm_seg_entries sm t rs))"
proof -
  have "unat (rs_end rs) - unat (rs_start rs) \<le> unat (sm_size sm)"
    using assms(2) by (auto simp: sm_aligned_def word_le_nat_alt sm_end_unat [OF assms(1)])
  then have "unat (sm_seg_units sm rs) \<le> unat (sm_units sm)"
    using assms(3) by (simp add: sm_seg_units_def unat_shift unat_sub div_le_mono)
  also have "\<dots> \<le> 2 ^ 47" using assms(1) by (simp add: sm_geom_def)
  finally have "unat (sm_seg_units sm rs + 32767) = unat (sm_seg_units sm rs) + 32767"
    by (simp add: unat_word_ariths)
  then have "unat (howmany (sm_seg_units sm rs) SM_RUN_MAX) = length (sm_seg_entries sm t rs)"
    by (simp add: howmany_def SM_RUN_MAX_eq unat_div_distrib sm_seg_entries_def sm_runs_length sm_seg_units_def [symmetric])
  then show ?thesis by (metis of_nat_unat ucast_id)
qed

lemma space_map_entries_eq:
  assumes "sm_geom sm" and "\<forall>rs \<in> set (rt_segs rt). sm_aligned sm rs" and "rt_inv rt"
  shows "space_map_entries sm rt = 1 + of_nat (length (sm_segs_entries sm t (rt_segs rt)))"
proof -
  have "segs_ok segs \<Longrightarrow> \<forall>rs \<in> set segs. sm_aligned sm rs \<Longrightarrow>
    fold (\<lambda>rs entries. entries + howmany (sm_seg_units sm rs) SM_RUN_MAX) segs k =
      k + of_nat (length (sm_segs_entries sm t segs))" for segs k
    by (induction segs arbitrary: k) (simp_all add: sm_segs_entries_def sm_seg_entries_count [OF assms(1)])
  from this [OF rt_invD(2) [OF assms(3)] assms(2), of 1] show ?thesis
    by (simp add: space_map_entries_def sm_seg_units_def)
qed


lemma sm_log_at_grown:
  assumes "sm_log_at sm len alloc S" and "take k (sm_data sm') = take k (sm_data sm)"
    and "unat len div 8 \<le> k" "k \<le> length (sm_data sm')"
    and "sm_log sm' = sm_log sm" "sm_log_ok sm' = sm_log_ok sm" "sm_blksz sm' = sm_blksz sm"
  shows "sm_log_at sm' len alloc S"
proof -
  have "take (unat len div 8) (sm_data sm') = take (unat len div 8) (sm_data sm)"
    using assms(2,3) by (metis min.absorb1 take_take)
  with assms show ?thesis by (simp add: sm_log_at_def)
qed

lemma sm_change_card:
  assumes "sm_geom sm" "S \<subseteq> sm_region sm" "X \<subseteq> sm_region sm" "sm_allowed t X S"
    and "unat (a :: u64) = card S" "unat x = card X"
  shows "unat (if t = SM_ALLOC then a + x else a - x) = card (sm_change t X S)"
proof (cases t)
  case SM_ALLOC
  then have "card (S \<union> X) = card S + card X" using assms(4) by (intro card_Un_disjoint) (auto simp: sm_allowed_def)
  moreover have "card (S \<union> X) \<le> card (sm_region sm)" using assms(2,3) by (intro card_mono) auto
  moreover have "card (sm_region sm) < 2 ^ 64"
    using assms(1) unat_u64_less [of "sm_size sm"] by (simp add: sm_region_def sm_geom_def card_extent)
  ultimately show ?thesis using SM_ALLOC assms(5,6) by (simp add: sm_change_def unat_word_ariths)
next
  case SM_FREE
  then have "X \<subseteq> S" using assms(4) by (simp add: sm_allowed_def)
  then have "card (S - X) = card S - card X" "card X \<le> card S" by (simp_all add: card_Diff_subset card_mono)
  with SM_FREE assms(5,6) show ?thesis by (simp add: sm_change_def unat_sub word_le_nat_alt)
qed

definition sm_accounted :: "space_map \<Rightarrow> range_tree \<Rightarrow> maptype \<Rightarrow> space_map" where
  "sm_accounted sm rt t = sm\<lparr>sm_phys := (sm_phys sm)\<lparr>smp_object := sm_object sm, smp_alloc :=
      (if t = SM_ALLOC then smp_alloc (sm_phys sm) + range_tree_space rt
       else smp_alloc (sm_phys sm) - range_tree_space rt)\<rparr>\<rparr>"

text \<open>What \<open>space_map_write\<close> leaves in the object, before the log is given its meaning.\<close>

lemma space_map_write_words:
  assumes geom: "sm_geom sm" and obj: "sm_object sm \<noteq> 0" and room: "sm_room sm (2 ^ 47 + 1)"
    and rt: "rt_inv rt" "range_tree_space rt \<noteq> 0" and al: "\<forall>rs \<in> set (rt_segs rt). sm_aligned sm rs"
    and sm0_def: "sm0 = sm_accounted sm rt t"
  shows "\<exists>sm'. space_map_write sm rt t sync_pass txg = Inr sm' \<and> sm_grown sm0 sm' \<and> sm_room sm' 0 \<and>
    sm_words sm' = sm_words sm @ sm_debug t sync_pass txg # sm_segs_entries sm t (rt_segs rt)"
proof -
  let ?d = "sm_debug t sync_pass txg" and ?es = "sm_segs_entries sm t (rt_segs rt)"
  obtain sm1 buf n tot where f:
    "fold (space_map_write_seg t) (rt_segs rt) ((sm0, [?d], 1), 0) = ((sm1, buf, n), tot)"
    by (metis prod.exhaust)
  have same: "sm_words sm0 = sm_words sm" "sm_blksz sm0 = sm_blksz sm" "sm_shift sm0 = sm_shift sm"
    "space_map_entries sm0 rt = space_map_entries sm rt" "sm_seg_units sm0 = sm_seg_units sm"
    by (simp_all add: sm0_def sm_accounted_def sm_words_def space_map_entries_def fun_eq_iff sm_seg_units_def)
  have "sm_seg_entries sm0 t = sm_seg_entries sm t" by (simp add: sm0_def sm_accounted_def fun_eq_iff sm_seg_entries_def)
  then have es: "sm_segs_entries sm0 t (rt_segs rt) = ?es" by (simp add: sm_segs_entries_def)
  have "sm_room sm0 (length [?d] + length ?es)"
    using room sm_segs_length [OF geom al rt(1), of t] by (simp add: sm_room_def sm0_def sm_accounted_def)
  with space_map_write_segs_ok [OF f] geom
  have W: "sm_words sm1 @ buf = sm_words sm @ ?d # ?es" "sm_room sm1 (length buf)" "sm_grown sm0 sm1" "buf \<noteq> []"
    "n = 1 + of_nat (length ?es)" "tot = (\<Sum>rs \<leftarrow> rt_segs rt. push_bit (sm_shift sm) (sm_seg_units sm rs))"
    by (auto simp: same es sm_geom_def)
  note F = space_map_flush_ok [OF W(2) order.refl refl]
  have count: "space_map_entries sm0 rt = n" using space_map_entries_eq [OF geom al rt(1), of t] W(5) same(4) by simp
  have tot: "tot = range_tree_space rt"
    using sm_segs_total [OF geom al rt_invD(2) [OF rt(1)]] rt_invD(4) [OF rt(1)] W(6) by (simp add: range_tree_space_def)
  have "space_map_write sm rt t sync_pass txg = Inr (space_map_flush sm1 buf (of_nat (8 * length buf)))"
    using obj rt(2) f W(4) count tot
    by (cases t) (simp_all add: space_map_write_def space_map_object_def sm0_def sm_accounted_def sm_debug_def Let_def)
  moreover have "sm_words (space_map_flush sm1 buf (of_nat (8 * length buf))) = sm_words sm @ ?d # ?es"
    using F(1) W(1) by simp
  ultimately show ?thesis using F(2) sm_grown_trans [OF W(3) F(3)] by (intro exI conjI) simp_all
qed


lemma sm_grown_accounted:
  assumes "sm_grown (sm_accounted sm rt t) sm'"
  shows "sm_log sm' = sm_log sm" "sm_log_ok sm' = sm_log_ok sm" "sm_blksz sm' = sm_blksz sm" "sm_geom sm' = sm_geom sm"
    "sm_length sm' = sm_length sm" "sm_alloc sm' = sm_alloc sm"
    "smp_alloc (sm_phys sm') = (if t = SM_ALLOC then smp_alloc (sm_phys sm) + range_tree_space rt
       else smp_alloc (sm_phys sm) - range_tree_space rt)" "sm_region sm' = sm_region sm"
  using assms by (auto simp: sm_grown_def sm_accounted_def sm_geom_def sm_region_def)

lemma sm_syncing_words:
  "sm_syncing sm S \<longleftrightarrow> sm_room sm 0 \<and> 8 * length (sm_words sm) + max (sm_blksz sm) 512 < 2 ^ 64 \<and>
     sm_log_ok sm (sm_words sm) {} \<and> sm_log sm (sm_words sm) {} = S \<and> unat (smp_alloc (sm_phys sm)) = card S"
  by (auto simp: sm_log_at_def sm_room_def sm_words_def)

lemma space_map_write_log:
  assumes geom: "sm_geom sm" and obj: "sm_object sm \<noteq> 0" and log: "sm_syncing sm S" "sm_synced sm S0"
    and len: "sm_length sm \<le> smp_objsize (sm_phys sm)" "smp_objsize (sm_phys sm) \<le> 2 ^ 63"
    and rt: "rt_inv rt" "\<forall>rs \<in> set (rt_segs rt). sm_aligned sm rs" "sm_allowed t (covers (rt_segs rt)) S"
  shows "\<exists>sm'. space_map_write sm rt t sync_pass txg = Inr sm' \<and> sm_geom sm' \<and> sm_region sm' = sm_region sm \<and>
    sm_syncing sm' (sm_change t (covers (rt_segs rt)) S) \<and> sm_synced sm' S0"
proof (cases "range_tree_space rt = 0")
  case True
  then have "covers (rt_segs rt) = {}" using rts.space_0_iff [OF rt(1)] by simp
  with True obj geom log show ?thesis
    by (simp add: space_map_write_def space_map_object_def Let_def sm_change_Un sm_log_at_def sm_geom_def sm_region_def)
next
  case False
  let ?es = "sm_segs_entries sm t (rt_segs rt)" and ?d = "sm_debug t sync_pass txg"
  have len': "unat (smp_objsize (sm_phys sm)) \<le> 2 ^ 63" using len(2) by (simp add: word_le_nat_alt)
  then have "sm_room sm (2 ^ 47 + 1)" using log(1) by (simp add: sm_room_def sm_log_at_def)
  from space_map_write_words [OF geom obj this rt(1) False rt(2) refl, of t sync_pass txg] obtain sm'
    where w: "space_map_write sm rt t sync_pass txg = Inr sm'" "sm_grown (sm_accounted sm rt t) sm'" "sm_room sm' 0"
      "sm_words sm' = sm_words sm @ ?d # ?es" by blast
  note G = sm_grown_accounted [OF w(2)]
  note R = sm_room_words(2) [OF w(3)]
  have "sm_room sm 0" using log(1) by (simp add: sm_room_def sm_log_at_def)
  note R0 = sm_room_words(2) [OF this]
  have log0: "sm_log_ok sm (sm_words sm) {}" "sm_log sm (sm_words sm) {} = S" "unat (smp_alloc (sm_phys sm)) = card S"
    using log(1) by (simp_all add: sm_log_at_def sm_words_def)
  have d: "sm_entry_ok sm ?d S" "sm_apply sm ?d S = S" by (simp_all add: sm_entry_ok_def sm_apply_def sm_decode_debug)
  note L = sm_segs_log [OF geom rt(2) rt_invD(2) [OF rt(1)] rt(3)]
  have "unat (range_tree_space rt) = card (covers (rt_segs rt))" by (rule rts.space_card [OF rt(1)])
  from sm_change_card [OF geom sm_log_at_region [OF log(1)] sm_segs_in_region [OF rt(2)] rt(3) log0(3) this]
  have "unat (smp_alloc (sm_phys sm')) = card (sm_change t (covers (rt_segs rt)) S)" using G(7) by simp
  moreover have "8 * length (sm_words sm') + max (sm_blksz sm) 512 < 2 ^ 64"
  proof -
    have "max (sm_blksz sm) 512 < 2 ^ 32" using geom by (simp add: sm_geom_def)
    with len' R0 sm_segs_length [OF geom rt(2,1), of t] show ?thesis by (simp add: w(4))
  qed
  ultimately have "sm_syncing sm' (sm_change t (covers (rt_segs rt)) S)"
    using w(3) G(1-3) log0 d L by (simp add: sm_syncing_words w(4))
  moreover have "sm_synced sm' S0"
    unfolding G(5,6)
  proof (rule sm_log_at_grown [OF log(2)])
    show "take (length (sm_words sm)) (sm_data sm') = take (length (sm_words sm)) (sm_data sm)"
      using sm_words_take(1) [of "length (sm_words sm)" sm'] sm_words_take(1) [of "length (sm_words sm)" sm]
      by (simp add: w(4))
    show "unat (sm_length sm) div 8 \<le> length (sm_words sm)"
      using len(1) R0 by (simp add: word_le_nat_alt div_le_mono)
    show "length (sm_words sm) \<le> length (sm_data sm')"
      using sm_words_take(2) [of sm'] by (simp add: w(4))
  qed (use G in auto)
  ultimately show ?thesis using w(1) G(4,8) geom by blast
qed


section \<open>The histogram\<close>





section \<open>Properties\<close>

text \<open>
  C4. Loading a space map. When the log up to \<open>sm_length\<close> describes the allocated set \<open>S\<close>, a load
  always returns. If every read succeeds, the tree holds exactly the allocated offsets
  (\<open>SM_ALLOC\<close>) or exactly the free ones of the region (\<open>SM_FREE\<close>) and no \<open>VERIFY\<close> fails; if a read
  fails, its error is returned and the tree is empty.
\<close>

theorem space_map_load_correct:
  assumes "sm_geom sm" and "sm_synced sm S" and "rt_inv rt" and "range_tree_space rt = 0"
  shows "\<exists>err rt'. space_map_load zr rd sm rt t = Some (Inr (err, rt')) \<and> rt_inv rt' \<and>
    (if \<forall>b \<in> sm_blocks 0 (sm_length sm) (sm_bufsize sm). rd b = 0
     then err = 0 \<and> covers (rt_segs rt') = (if t = SM_ALLOC then S else sm_region sm - S)
     else err \<noteq> 0 \<and> covers (rt_segs rt') = {} \<and> (\<exists>b \<in> sm_blocks 0 (sm_length sm) (sm_bufsize sm). err = rd b))"
proof -
  have "sm_view sm t S = (if t = SM_ALLOC then S else sm_region sm - S)" by (cases t) (simp_all add: sm_view_def)
  with space_map_load_ok [OF assms, of zr rd t] show ?thesis by (simp only:)
qed

text \<open>
  C3. Writing a range tree to a space map. The segments of the tree lie in the region on unit
  boundaries and are free (\<open>SM_ALLOC\<close>) or allocated (\<open>SM_FREE\<close>). The write succeeds: no
  \<open>VERIFY\<close> fails and the number of entries is the one \<open>space_map_entries\<close> foresaw. The log on disk then
  describes the allocated set with the segments added or taken out, while the synced log, which
  \<open>space_map_load\<close> reads until \<open>space_map_update\<close>, still describes the old set.
\<close>

theorem space_map_write_correct:
  assumes "sm_geom sm" and "sm_object sm \<noteq> 0" and "sm_syncing sm S" and "sm_synced sm S0"
    and "sm_length sm \<le> smp_objsize (sm_phys sm)" and "smp_objsize (sm_phys sm) \<le> 2 ^ 63"
    and "rt_inv rt" and "\<forall>rs \<in> set (rt_segs rt). sm_aligned sm rs"
    and "if t = SM_ALLOC then covers (rt_segs rt) \<inter> S = {} else covers (rt_segs rt) \<subseteq> S"
  shows "\<exists>sm'. space_map_write sm rt t sync_pass txg = Inr sm' \<and> sm_geom sm' \<and> sm_synced sm' S0 \<and>
    sm_syncing sm' (if t = SM_ALLOC then S \<union> covers (rt_segs rt) else S - covers (rt_segs rt))"
  using space_map_write_log [OF assms(1-8), of t sync_pass txg] assms(9) by (auto simp: sm_allowed_def sm_change_def)

text \<open>
  C16. Round trip: what is written and then made current with \<open>space_map_update\<close> is what a later
  load gives back.
\<close>

theorem space_map_round_trip:
  assumes "sm_geom sm" and "sm_object sm \<noteq> 0" and "sm_syncing sm S" and "sm_synced sm S0"
    and "sm_length sm \<le> smp_objsize (sm_phys sm)" and "smp_objsize (sm_phys sm) \<le> 2 ^ 63"
    and "rt_inv rt" and "\<forall>rs \<in> set (rt_segs rt). sm_aligned sm rs" and "covers (rt_segs rt) \<inter> S = {}"
    and "rt_inv fresh" and "range_tree_space fresh = 0"
  shows "\<exists>sm1 sm2 rt'. space_map_write sm rt SM_ALLOC sync_pass txg = Inr sm1 \<and>
    space_map_update (Some sm1) = Some sm2 \<and>
    space_map_load zr (\<lambda>_. 0) sm2 fresh SM_FREE = Some (Inr (0, rt')) \<and> rt_inv rt' \<and>
    covers (rt_segs rt') = sm_region sm - S - covers (rt_segs rt)"
proof -
  obtain sm1 where w: "space_map_write sm rt SM_ALLOC sync_pass txg = Inr sm1" "sm_geom sm1"
      "sm_syncing sm1 (S \<union> covers (rt_segs rt))" "sm_region sm1 = sm_region sm"
    using space_map_write_log [OF assms(1-8), of SM_ALLOC sync_pass txg] assms(9)
    by (auto simp: sm_allowed_def sm_change_def)
  define sm2 where "sm2 = sm1\<lparr>sm_alloc := smp_alloc (sm_phys sm1), sm_length := smp_objsize (sm_phys sm1)\<rparr>"
  have u: "space_map_update (Some sm1) = Some sm2" by (simp add: space_map_update_def sm2_def)
  have g: "sm_geom sm2" "sm_synced sm2 (S \<union> covers (rt_segs rt))"
    using w(2,3) by (simp_all add: sm2_def sm_geom_def sm_log_at_def)
  have "sm_region sm2 = sm_region sm" using w(4) by (simp add: sm2_def sm_region_def)
  with space_map_load_ok [OF g assms(10,11), of zr "\<lambda>_. 0" SM_FREE] w(1) u show ?thesis
    by (auto simp: sm_view_def)
qed





text \<open>
  C19. Every field of an entry is read back as it was written, for unit offsets of 47 bits and
  runs of 1 to \<open>SM_RUN_MAX\<close> units; the entry is not taken for a debug entry.
\<close>

theorem space_map_entry_round_trip:
  assumes "start < 2 ^ 47" and "1 \<le> run_len" and "run_len \<le> SM_RUN_MAX"
    and "e = SM_OFFSET_ENCODE start OR SM_TYPE_ENCODE (maptype_val t) OR SM_RUN_ENCODE run_len"
  shows "SM_OFFSET_DECODE e = start \<and> SM_TYPE_DECODE e = maptype_val t \<and> SM_RUN_DECODE e = run_len \<and>
    SM_DEBUG_DECODE e = 0"
proof -
  have "take_bit 47 start = start" using assms(1) by (intro take_bit_unat_self) (simp add: word_less_nat_alt)
  moreover have "unat (run_len - 1) < 2 ^ 15"
    using assms(2,3) by (simp add: SM_RUN_MAX_eq word_le_nat_alt unat_sub)
  then have "take_bit 15 (run_len - 1) = run_len - 1" by (rule take_bit_unat_self)
  ultimately show ?thesis
    using assms(4) by (simp add: sm_decode_fields sm_decode_debug flip: sm_encode_def)
qed

section \<open>Witnesses\<close>

definition demo_sm :: space_map where
  "demo_sm = \<lparr>sm_start = 65536, sm_size = 65536, sm_shift = 9, sm_length = 0, sm_alloc = 0, sm_object = 5,
     sm_blksz = 4096, sm_phys = \<lparr>smp_object = 5, smp_objsize = 0, smp_alloc = 0, smp_histogram = replicate 32 0\<rparr>,
     sm_dbuf = True, sm_db_size = 320, sm_bonus_size = 320, sm_data = []\<rparr>"

lemma demo_sm_ok: "sm_geom demo_sm" "sm_syncing demo_sm {}" "sm_synced demo_sm {}" "sm_object demo_sm \<noteq> 0"
  "sm_length demo_sm \<le> smp_objsize (sm_phys demo_sm)" "smp_objsize (sm_phys demo_sm) \<le> 2 ^ 63"
  by (simp_all add: demo_sm_def sm_geom_def sm_log_at_def unat_shift)

lemma demo_tree:
  obtains rt where "range_tree_add False (range_tree_create False) 66048 1024 = Inr rt" "rt_inv rt"
    "rt_segs rt = [\<lparr>rs_start = 66048, rs_end = 67072\<rparr>]" "\<forall>rs \<in> set (rt_segs rt). sm_aligned demo_sm rs"
    "covers (rt_segs rt) = {66048 ..< 67072}"
proof -
  obtain rt where a: "range_tree_add False (range_tree_create False) 66048 1024 = Inr rt" and i: "rt_inv rt"
    using range_tree_add_disjoint [OF range_tree_create_inv, of 66048 1024 False False] by auto
  have "map_sum id rt_segs (range_tree_add False (range_tree_create False) 66048 1024)
      = Inr [\<lparr>rs_start = 66048, rs_end = 67072\<rparr>]"
    by code_simp
  with a have s: "rt_segs rt = [\<lparr>rs_start = 66048, rs_end = 67072\<rparr>]" by simp
  show ?thesis by (rule that [OF a i s]) (simp_all add: s seg_cover_def sm_aligned_def demo_sm_def)
qed

lemma fresh_tree: "rt_inv (range_tree_create False)" "range_tree_space (range_tree_create False) = 0"
  by (simp_all add: range_tree_create_inv rts.space_0_iff)

theorem space_map_write_correct_witness:
  "\<exists>rt sm'. range_tree_add False (range_tree_create False) 66048 1024 = Inr rt \<and>
     space_map_write demo_sm rt SM_ALLOC 1 7 = Inr sm' \<and> sm_syncing sm' {66048 ..< 67072} \<and> sm_synced sm' {}"
proof -
  obtain rt where t: "range_tree_add False (range_tree_create False) 66048 1024 = Inr rt" "rt_inv rt"
    "\<forall>rs \<in> set (rt_segs rt). sm_aligned demo_sm rs" "covers (rt_segs rt) = {66048 ..< 67072}"
    by (rule demo_tree)
  from space_map_write_correct [OF demo_sm_ok(1,4,2,3,5,6) t(2,3), of SM_ALLOC 1 7] t(1,4)
  show ?thesis by auto
qed

theorem space_map_round_trip_witness:
  "\<exists>rt sm1 sm2 rt'. range_tree_add False (range_tree_create False) 66048 1024 = Inr rt \<and>
     space_map_write demo_sm rt SM_ALLOC 1 7 = Inr sm1 \<and> space_map_update (Some sm1) = Some sm2 \<and>
     space_map_load False (\<lambda>_. 0) sm2 (range_tree_create False) SM_FREE = Some (Inr (0, rt')) \<and>
     covers (rt_segs rt') = {65536 ..< 131072} - {66048 ..< 67072}"
proof -
  obtain rt where t: "range_tree_add False (range_tree_create False) 66048 1024 = Inr rt" "rt_inv rt"
    "\<forall>rs \<in> set (rt_segs rt). sm_aligned demo_sm rs" "covers (rt_segs rt) = {66048 ..< 67072}"
    by (rule demo_tree)
  have r: "sm_region demo_sm = {65536 ..< 131072}" by (simp add: sm_region_def demo_sm_def)
  from space_map_round_trip [OF demo_sm_ok(1,4,2,3,5,6) t(2,3) Int_empty_right fresh_tree, of 1 7 False] t(1,4) r
  show ?thesis by auto
qed

theorem space_map_load_correct_witness:
  "\<exists>rt sm1 sm2 rt'. range_tree_add False (range_tree_create False) 66048 1024 = Inr rt \<and>
     space_map_write demo_sm rt SM_ALLOC 1 7 = Inr sm1 \<and> space_map_update (Some sm1) = Some sm2 \<and>
     space_map_load False (\<lambda>_. 0) sm2 (range_tree_create False) SM_ALLOC = Some (Inr (0, rt')) \<and>
     covers (rt_segs rt') = {66048 ..< 67072}"
proof -
  obtain rt where t: "range_tree_add False (range_tree_create False) 66048 1024 = Inr rt" "rt_inv rt"
    "\<forall>rs \<in> set (rt_segs rt). sm_aligned demo_sm rs" "covers (rt_segs rt) = {66048 ..< 67072}"
    by (rule demo_tree)
  obtain sm1 where w: "space_map_write demo_sm rt SM_ALLOC 1 7 = Inr sm1" "sm_geom sm1" "sm_syncing sm1 {66048 ..< 67072}"
    using space_map_write_log [OF demo_sm_ok(1,4,2,3,5,6) t(2,3), of SM_ALLOC 1 7] t(4)
    by (auto simp: sm_allowed_def sm_change_def)
  define sm2 where "sm2 = sm1\<lparr>sm_alloc := smp_alloc (sm_phys sm1), sm_length := smp_objsize (sm_phys sm1)\<rparr>"
  have "sm_geom sm2" "sm_synced sm2 {66048 ..< 67072}"
    using w(2,3) by (simp_all add: sm2_def sm_geom_def sm_log_at_def)
  from space_map_load_correct [OF this fresh_tree, of False "\<lambda>_. 0" SM_ALLOC] t(1) w(1) show ?thesis
    by (auto simp: space_map_update_def sm2_def)
qed




theorem space_map_entry_round_trip_witness:
  "SM_RUN_DECODE (SM_OFFSET_ENCODE 70000 OR SM_TYPE_ENCODE (maptype_val SM_FREE) OR SM_RUN_ENCODE 32768) = 32768"
  using space_map_entry_round_trip [of 70000 32768 _ SM_FREE] by (simp add: SM_RUN_MAX_eq)

end
