(* ===== verification/SpaceReftree.thy ===== *)
theory SpaceReftree
  imports RangeTree
begin

text \<open>
  Space reference trees (\<open>module/zfs/space_reftree.c\<close>): unions and intersections of range trees by
  counting references. A node marks an offset where the count changes.

  Nodes that share an offset are ordered by their addresses. The addresses \<open>kmem_alloc\<close> returns
  are the parameter \<open>mem\<close>, the address of the n-th allocation; what the code relies on is that
  they are all different. The counts, 64-bit in the source, are integers.
\<close>

section \<open>Operations\<close>

record space_ref =
  sr_addr :: nat
  sr_offset :: u64
  sr_refcnt :: int

record space_reftree =
  srt_tree :: "space_ref avl_tree"
  srt_allocs :: nat

definition space_reftree_compare :: "space_ref compar" where
  "space_reftree_compare sr1 sr2 =
     (if sr_offset sr1 < sr_offset sr2 then -1
      else if sr_offset sr1 > sr_offset sr2 then 1
      else if sr_addr sr1 < sr_addr sr2 then -1
      else if sr_addr sr1 > sr_addr sr2 then 1
      else 0)"

definition space_reftree_create :: space_reftree where
  "space_reftree_create = \<lparr>srt_tree = avl_create, srt_allocs = 0\<rparr>"

text \<open>The nodes freed, and the tree, which must be empty for \<open>avl_destroy\<close>.\<close>

definition space_reftree_destroy :: "space_reftree \<Rightarrow> space_ref list \<times> space_ref avl_tree" where
  "space_reftree_destroy t = avl_drain (srt_tree t) Cookie_NULL"

definition space_reftree_add_node ::
  "(nat \<Rightarrow> nat) \<Rightarrow> space_reftree \<Rightarrow> u64 \<Rightarrow> int \<Rightarrow> space_reftree option" where
  "space_reftree_add_node mem t offset refcnt =
     (let sr = \<lparr>sr_addr = mem (srt_allocs t), sr_offset = offset, sr_refcnt = refcnt\<rparr>
      in case avl_add space_reftree_compare (srt_tree t) sr of
           None \<Rightarrow> None
         | Some tree \<Rightarrow> Some \<lparr>srt_tree = tree, srt_allocs = srt_allocs t + 1\<rparr>)"

definition space_reftree_add_seg ::
  "(nat \<Rightarrow> nat) \<Rightarrow> space_reftree \<Rightarrow> u64 \<Rightarrow> u64 \<Rightarrow> int \<Rightarrow> space_reftree option" where
  "space_reftree_add_seg mem t start end refcnt =
     Option.bind (space_reftree_add_node mem t start refcnt)
       (\<lambda>t. space_reftree_add_node mem t end (- refcnt))"

fun space_reftree_add_segs ::
  "(nat \<Rightarrow> nat) \<Rightarrow> space_reftree \<Rightarrow> range_seg list \<Rightarrow> int \<Rightarrow> space_reftree option" where
  "space_reftree_add_segs mem t [] refcnt = Some t"
| "space_reftree_add_segs mem t (rs # segs) refcnt =
     Option.bind (space_reftree_add_seg mem t (rs_start rs) (rs_end rs) refcnt)
       (\<lambda>t. space_reftree_add_segs mem t segs refcnt)"

definition space_reftree_add_map ::
  "(nat \<Rightarrow> nat) \<Rightarrow> space_reftree \<Rightarrow> range_tree \<Rightarrow> int \<Rightarrow> space_reftree option" where
  "space_reftree_add_map mem t rt refcnt = space_reftree_add_segs mem t (avl_for_each (rt_root rt)) refcnt"

datatype srt_error = Srt_range_tree rt_error | Assert_start_end | Assert_refcnt | Assert_start

text \<open>One round of the loop; the state is \<open>start\<close>, \<open>refcnt\<close> and the range tree.\<close>

definition space_reftree_generate_step ::
  "bool \<Rightarrow> int \<Rightarrow> space_ref \<Rightarrow> u64 \<times> int \<times> range_tree \<Rightarrow> srt_error + u64 \<times> int \<times> range_tree" where
  "space_reftree_generate_step zfs_recover minref sr st =
     (let (start, refcnt, rt) = st;
          refcnt = refcnt + sr_refcnt sr
      in if refcnt \<ge> minref
         then Inr (if start = -1 then sr_offset sr else start, refcnt, rt)
         else if start \<noteq> -1
         then
           (let end = sr_offset sr
            in if \<not> start \<le> end then Inl Assert_start_end
               else if end > start
               then (case range_tree_add zfs_recover rt start (end - start) of
                       Inl e \<Rightarrow> Inl (Srt_range_tree e)
                     | Inr rt \<Rightarrow> Inr (-1, refcnt, rt))
               else Inr (-1, refcnt, rt))
         else Inr (start, refcnt, rt))"

fun space_reftree_generate_loop ::
  "bool \<Rightarrow> int \<Rightarrow> space_ref list \<Rightarrow> u64 \<times> int \<times> range_tree \<Rightarrow> srt_error + u64 \<times> int \<times> range_tree" where
  "space_reftree_generate_loop zfs_recover minref [] st = Inr st"
| "space_reftree_generate_loop zfs_recover minref (sr # srs) st =
     (case space_reftree_generate_step zfs_recover minref sr st of
        Inl e \<Rightarrow> Inl e
      | Inr st \<Rightarrow> space_reftree_generate_loop zfs_recover minref srs st)"

definition space_reftree_generate_map ::
  "bool \<Rightarrow> space_reftree \<Rightarrow> range_tree \<Rightarrow> int \<Rightarrow> srt_error + range_tree" where
  "space_reftree_generate_map zfs_recover t rt minref =
     (case space_reftree_generate_loop zfs_recover minref (avl_for_each (srt_tree t))
             (-1, 0, fst (range_tree_vacate rt)) of
        Inl e \<Rightarrow> Inl e
      | Inr (start, refcnt, rt) \<Rightarrow>
          if refcnt \<noteq> 0 then Inl Assert_refcnt else if start \<noteq> -1 then Inl Assert_start else Inr rt)"

section \<open>Adding references\<close>

interpretation srt: compar_order space_reftree_compare
  by unfold_locales (auto simp: space_reftree_compare_def split: if_splits)

interpretation srt: ordered_tree avl_elems avl_inv avl_lookup "\<lambda>t w. avl_zip Null w = avl_root t" ix_before ix_after
  avl_insert avl_remove avl_store space_reftree_compare ..


abbreviation srt_refs :: "space_reftree \<Rightarrow> space_ref list" where
  "srt_refs t \<equiv> avl_elems (srt_tree t)"

text \<open>The reference count of an offset: the sum of the changes at or below it.\<close>

definition ref_sum :: "space_ref list \<Rightarrow> u64 \<Rightarrow> int" where
  "ref_sum srs x = (\<Sum>sr \<leftarrow> srs. if sr_offset sr \<le> x then sr_refcnt sr else 0)"

definition ref_total :: "space_ref list \<Rightarrow> int" where
  "ref_total srs = (\<Sum>sr \<leftarrow> srs. sr_refcnt sr)"

text \<open>
  The tree is ordered, all its nodes come from earlier allocations, the count returns to zero,
  and no count starts at the largest offset, which \<open>space_reftree_generate_map\<close> uses as a mark.
\<close>

definition srt_inv :: "(nat \<Rightarrow> nat) \<Rightarrow> space_reftree \<Rightarrow> bool" where
  "srt_inv mem t \<longleftrightarrow>
     avl_inv (srt_tree t) \<and> srt.ordered (srt_refs t) \<and> sr_addr ` set (srt_refs t) \<subseteq> mem ` {..< srt_allocs t} \<and>
     (\<forall>sr \<in> set (srt_refs t). sr_offset sr = -1 \<longrightarrow> sr_refcnt sr \<le> 0)"

lemma ref_sum_simps [simp]:
  "ref_sum [] x = 0"
  "ref_sum (sr # srs) x = (if sr_offset sr \<le> x then sr_refcnt sr else 0) + ref_sum srs x"
  "ref_sum (as @ bs) x = ref_sum as x + ref_sum bs x"
  by (simp_all add: ref_sum_def)

lemma ref_sum_above: "\<forall>sr \<in> set srs. x < sr_offset sr \<Longrightarrow> ref_sum srs x = 0"
  by (induction srs) auto

lemma ref_total_simps [simp]:
  "ref_total [] = 0"
  "ref_total (sr # srs) = sr_refcnt sr + ref_total srs"
  "ref_total (as @ bs) = ref_total as + ref_total bs"
  by (simp_all add: ref_total_def)

lemma space_reftree_add_node_ok:
  assumes "inj mem" and "srt_inv mem t" and "offset = -1 \<longrightarrow> refcnt \<le> 0"
  shows "\<exists>t'. space_reftree_add_node mem t offset refcnt = Some t' \<and> srt_inv mem t' \<and>
    ref_total (srt_refs t') = ref_total (srt_refs t) + refcnt \<and>
    (\<forall>x. ref_sum (srt_refs t') x = ref_sum (srt_refs t) x + (if offset \<le> x then refcnt else 0))"
proof -
  let ?sr = "\<lparr>sr_addr = mem (srt_allocs t), sr_offset = offset, sr_refcnt = refcnt\<rparr>"
  have inv: "avl_inv (srt_tree t)" "srt.ordered (srt_refs t)" using assms(2) by (simp_all add: srt_inv_def)
  have "mem (srt_allocs t) \<notin> mem ` {..< srt_allocs t}" using assms(1) by (auto dest: injD)
  then have "\<forall>sr \<in> set (srt_refs t). sr_addr sr \<noteq> mem (srt_allocs t)" 
    using assms(2) unfolding srt_inv_def by (metis imageI subsetD)
  then have "\<forall>sr \<in> set (srt_refs t). space_reftree_compare ?sr sr \<noteq> 0"
    by (auto simp: space_reftree_compare_def split: if_splits)
  then obtain w where w: "avl_lookup (space_reftree_compare ?sr) (srt_tree t) = Inr w"
    using srt.lookup_ordered [OF inv(2), of ?sr] by (cases "avl_lookup (space_reftree_compare ?sr) (srt_tree t)") auto
  note I = srt.insert_ordered [OF inv(2,1) w]
  have e: "srt_refs t = ix_before w @ ix_after w" using avlt.slot_elems [OF avlt.lookup_slot [OF w]] .
  have n: "avl_elems (avl_insert (srt_tree t) ?sr w) = ix_before w @ ?sr # ix_after w"
    by (rule avlt.insert_elems [OF inv(1) avlt.lookup_slot [OF w]])
  let ?t = "\<lparr>srt_tree = avl_insert (srt_tree t) ?sr w, srt_allocs = srt_allocs t + 1\<rparr>"
  have "space_reftree_add_node mem t offset refcnt = Some ?t"
    using w by (simp add: space_reftree_add_node_def avl_add_def avl_find_def)
  moreover have "srt_inv mem ?t"
    using I assms(2,3) by (auto simp: srt_inv_def less_Suc_eq)
  ultimately show ?thesis using e n by simp
qed

lemma space_reftree_add_segs_ok:
  assumes "inj mem" and "srt_inv mem t" and "segs_ok segs" and "0 \<le> refcnt"
  shows "\<exists>t'. space_reftree_add_segs mem t segs refcnt = Some t' \<and> srt_inv mem t' \<and>
    ref_total (srt_refs t') = ref_total (srt_refs t) \<and>
    (\<forall>x. ref_sum (srt_refs t') x = ref_sum (srt_refs t) x + (if x \<in> covers segs then refcnt else 0))"
  using assms(2,3)
proof (induction segs arbitrary: t)
  case (Cons rs segs)
  have less: "rs_start rs < rs_end rs" using Cons.prems(2) by simp
  then have "rs_start rs \<noteq> -1" by auto
  then obtain t1 where t1: "space_reftree_add_node mem t (rs_start rs) refcnt = Some t1" "srt_inv mem t1"
      "ref_total (srt_refs t1) = ref_total (srt_refs t) + refcnt"
      "\<forall>x. ref_sum (srt_refs t1) x = ref_sum (srt_refs t) x + (if rs_start rs \<le> x then refcnt else 0)"
    using space_reftree_add_node_ok [OF assms(1) Cons.prems(1), of "rs_start rs" refcnt] by blast
  obtain t2 where t2: "space_reftree_add_node mem t1 (rs_end rs) (- refcnt) = Some t2" "srt_inv mem t2"
      "ref_total (srt_refs t2) = ref_total (srt_refs t1) - refcnt"
      "\<forall>x. ref_sum (srt_refs t2) x = ref_sum (srt_refs t1) x - (if rs_end rs \<le> x then refcnt else 0)"
    using space_reftree_add_node_ok [OF assms(1) t1(2), of "rs_end rs" "- refcnt"] assms(4) by auto
  obtain t3 where t3: "space_reftree_add_segs mem t2 segs refcnt = Some t3" "srt_inv mem t3"
      "ref_total (srt_refs t3) = ref_total (srt_refs t2)"
      "\<forall>x. ref_sum (srt_refs t3) x = ref_sum (srt_refs t2) x + (if x \<in> covers segs then refcnt else 0)"
    using Cons.IH [OF t2(2)] Cons.prems(2) by auto
  have "seg_cover rs \<inter> covers segs = {}"
    using Cons.prems(2) by (fastforce simp: seg_cover_def covers_def)
  then have "rs_start rs \<le> x \<Longrightarrow> x < rs_end rs \<Longrightarrow> x \<notin> covers segs" for x
    by (auto simp: seg_cover_def)
  then have "ref_sum (srt_refs t3) x = ref_sum (srt_refs t) x + (if x \<in> covers (rs # segs) then refcnt else 0)" for x
    using less by (auto simp: t1(4) t2(4) t3(4) seg_cover_def not_le)
  with t1 t2 t3 show ?case by (simp add: space_reftree_add_seg_def)
qed simp

section \<open>Generating a range tree\<close>

text \<open>
  The state of the loop after the nodes up to offset \<open>hi\<close>: the tree holds the offsets below
  \<open>hi\<close> whose final count is high enough, up to the run that is open.
\<close>

definition gen_inv :: "int \<Rightarrow> (u64 \<Rightarrow> int) \<Rightarrow> u64 \<Rightarrow> u64 \<times> int \<times> range_tree \<Rightarrow> bool" where
  "gen_inv minref f hi st \<longleftrightarrow>
     (let (start, refcnt, rt) = st in
      rt_inv rt \<and> (start \<noteq> -1 \<longleftrightarrow> minref \<le> refcnt) \<and>
      (if start = -1 then covers (rt_segs rt) = {x. x < hi \<and> minref \<le> f x}
       else start \<le> hi \<and> covers (rt_segs rt) \<subseteq> {..< start} \<and>
         covers (rt_segs rt) \<union> {start ..< hi} = {x. x < hi \<and> minref \<le> f x}))"

lemma gen_inv_closed:
  "gen_inv minref f hi (-1, refcnt, rt) \<longleftrightarrow>
     rt_inv rt \<and> \<not> minref \<le> refcnt \<and> covers (rt_segs rt) = {x. x < hi \<and> minref \<le> f x}"
  by (simp add: gen_inv_def)

lemma gen_inv_open:
  "start \<noteq> -1 \<Longrightarrow> gen_inv minref f hi (start, refcnt, rt) \<longleftrightarrow>
     rt_inv rt \<and> minref \<le> refcnt \<and> start \<le> hi \<and> covers (rt_segs rt) \<subseteq> {..< start} \<and>
     covers (rt_segs rt) \<union> {start ..< hi} = {x. x < hi \<and> minref \<le> f x}"
  by (simp add: gen_inv_def)

lemma space_reftree_generate_step_ok:
  assumes inv: "gen_inv minref f hi (start, refcnt, rt)"
    and gap: "hi \<le> sr_offset sr" "\<And>x. hi \<le> x \<Longrightarrow> x < sr_offset sr \<Longrightarrow> f x = refcnt"
    and mark: "sr_offset sr = -1 \<Longrightarrow> sr_refcnt sr \<le> 0"
  shows "\<exists>st'. space_reftree_generate_step zr minref sr (start, refcnt, rt) = Inr st' \<and>
    gen_inv minref f (sr_offset sr) st' \<and> fst (snd st') = refcnt + sr_refcnt sr"
proof -
  let ?c = "refcnt + sr_refcnt sr" and ?o = "sr_offset sr"
  have below: "{x. x < ?o \<and> minref \<le> f x} = {x. x < hi \<and> minref \<le> f x} \<union> (if minref \<le> refcnt then {hi ..< ?o} else {})"
  proof (rule set_eqI)
    fix x
    show "x \<in> {x. x < ?o \<and> minref \<le> f x} \<longleftrightarrow>
        x \<in> {x. x < hi \<and> minref \<le> f x} \<union> (if minref \<le> refcnt then {hi ..< ?o} else {})"
      using gap(1) gap(2) [of x] by (cases "x < hi") (auto simp: not_less)
  qed
  show ?thesis
  proof (cases "start = -1")
    case True
    then have c: "\<not> minref \<le> refcnt" and cov: "covers (rt_segs rt) = {x. x < hi \<and> minref \<le> f x}" and rt: "rt_inv rt"
      using inv by (simp_all add: gen_inv_closed)
    show ?thesis
    proof (cases "minref \<le> ?c")
      case up: True
      then have "?o \<noteq> -1" using mark c by linarith
      moreover have "covers (rt_segs rt) \<subseteq> {..< ?o}"
        unfolding cov using gap(1) by (auto intro: order.strict_trans2)
      ultimately show ?thesis
        using True up c cov below rt by (simp add: space_reftree_generate_step_def gen_inv_closed gen_inv_open)
    next
      case False
      with True c cov below rt show ?thesis by (simp add: space_reftree_generate_step_def gen_inv_closed gen_inv_open)
    qed
  next
    case False
    then have c: "minref \<le> refcnt" and cov: "covers (rt_segs rt) \<union> {start ..< hi} = {x. x < hi \<and> minref \<le> f x}"
      and low: "covers (rt_segs rt) \<subseteq> {..< start}" and le: "start \<le> hi" and rt: "rt_inv rt"
      using inv by (simp_all only: gen_inv_open [OF False])
    have join: "{x. x < ?o \<and> minref \<le> f x} = covers (rt_segs rt) \<union> {start ..< ?o}"
      unfolding below cov [symmetric] using seg_cover_join [OF le gap(1)] c by (simp add: Un_assoc)
    show ?thesis
    proof (cases "minref \<le> ?c")
      case True
      with False low join rt le gap(1) show ?thesis
        by (simp add: space_reftree_generate_step_def gen_inv_closed gen_inv_open)
    next
      case down: False
      show ?thesis
      proof (cases "start < ?o")
        case True
        then have less: "start < start + (?o - start)" by simp
        have "{start ..< start + (?o - start)} \<inter> covers (rt_segs rt) = {}" using low by force
        from rts.add_ok [OF rt less this, of zr] obtain rt'
          where "range_tree_add zr rt start (?o - start) = Inr rt'" "rt_inv rt'"
            "covers (rt_segs rt') = covers (rt_segs rt) \<union> {start ..< ?o}" by auto
        with False down True join show ?thesis
          by (simp add: less_imp_le space_reftree_generate_step_def gen_inv_closed gen_inv_open)
      next
        case eq: False
        then have "start = ?o" using le gap(1) by simp
        with False down join rt show ?thesis
          by (simp add: space_reftree_generate_step_def gen_inv_closed gen_inv_open)
      qed
    qed
  qed
qed


text \<open>
  The nodes still to come: ascending, none below \<open>hi\<close>; \<open>f\<close> is the count so far plus theirs.
\<close>

lemma space_reftree_generate_loop_ok:
  assumes "gen_inv minref f hi (start, refcnt, rt)"
    and "sorted_wrt (\<lambda>a b. sr_offset a \<le> sr_offset b) srs" and "\<forall>sr \<in> set srs. hi \<le> sr_offset sr"
    and "\<forall>x. hi \<le> x \<longrightarrow> f x = refcnt + ref_sum srs x"
    and "\<forall>sr \<in> set srs. sr_offset sr = -1 \<longrightarrow> sr_refcnt sr \<le> 0"
  shows "\<exists>start' rt' hi'. space_reftree_generate_loop zr minref srs (start, refcnt, rt) =
      Inr (start', refcnt + ref_total srs, rt') \<and>
    gen_inv minref f hi' (start', refcnt + ref_total srs, rt') \<and> (\<forall>x. hi' \<le> x \<longrightarrow> f x = refcnt + ref_total srs)"
  using assms
proof (induction srs arbitrary: hi start refcnt rt)
  case (Cons sr srs)
  have low: "ref_sum (sr # srs) x = 0" if "x < sr_offset sr" for x
    by (rule ref_sum_above) (use Cons.prems(2) that in force)
  obtain start1 c1 rt1 where s: "space_reftree_generate_step zr minref sr (start, refcnt, rt) = Inr (start1, c1, rt1)"
      "gen_inv minref f (sr_offset sr) (start1, c1, rt1)" "c1 = refcnt + sr_refcnt sr"
    using space_reftree_generate_step_ok [OF Cons.prems(1), of sr zr] Cons.prems(3-5) low by auto
  have "\<forall>x. sr_offset sr \<le> x \<longrightarrow> f x = c1 + ref_sum srs x"
    using Cons.prems(3,4) s(3) by (auto dest: order.trans)
  with Cons.IH [OF s(2)] Cons.prems(2,5) s(1,3) show ?case by (simp add: add.assoc)
qed auto

lemma space_reftree_generate_map_ok:
  assumes "srt_inv mem t" and "ref_total (srt_refs t) = 0" and "rt_inv rt" and "0 < minref"
  shows "\<exists>rt'. space_reftree_generate_map zr t rt minref = Inr rt' \<and> rt_inv rt' \<and>
    covers (rt_segs rt') = {x. minref \<le> ref_sum (srt_refs t) x}"
proof -
  let ?f = "ref_sum (srt_refs t)" and ?rt = "fst (range_tree_vacate rt)"
  have sorted: "sorted_wrt (\<lambda>a b. sr_offset a \<le> sr_offset b) (srt_refs t)"
    using assms(1) unfolding srt_inv_def srt.ordered_def
    by (auto elim!: sorted_wrt_mono_rel [rotated] simp: space_reftree_compare_def split: if_splits)
  have start: "gen_inv minref ?f 0 (-1, 0, ?rt)"
    using range_tree_vacate_all [OF assms(3)] assms(4) by (simp add: gen_inv_closed)
  have f: "\<forall>x. 0 \<le> x \<longrightarrow> ?f x = 0 + ?f x" and lo: "\<forall>sr \<in> set (srt_refs t). 0 \<le> sr_offset sr"
    and mark: "\<forall>sr \<in> set (srt_refs t). sr_offset sr = -1 \<longrightarrow> sr_refcnt sr \<le> 0"
    using assms(1) by (simp_all add: srt_inv_def)
  obtain start' rt' hi
    where l: "space_reftree_generate_loop zr minref (srt_refs t) (-1, 0, ?rt) = Inr (start', 0, rt')"
      "gen_inv minref ?f hi (start', 0, rt')" "\<forall>x. hi \<le> x \<longrightarrow> ?f x = 0"
    using space_reftree_generate_loop_ok [OF start sorted lo f mark, of zr] unfolding assms(2) add_0_left by blast
  have "start' = -1" using l(2) assms(4) gen_inv_open [of start' minref ?f hi 0 rt'] by linarith
  with l(2) have "rt_inv rt'" "covers (rt_segs rt') = {x. x < hi \<and> minref \<le> ?f x}" by (simp_all add: gen_inv_closed)
  moreover have "x < hi" if "minref \<le> ?f x" for x
    by (rule ccontr) (use l(3) assms(4) that in \<open>auto simp: not_less\<close>)
  then have "{x. x < hi \<and> minref \<le> ?f x} = {x. minref \<le> ?f x}" by blast
  ultimately show ?thesis using l(1) \<open>start' = -1\<close> by (simp add: space_reftree_generate_map_def)
qed

section \<open>Counting range trees\<close>

fun space_reftree_add_maps ::
  "(nat \<Rightarrow> nat) \<Rightarrow> space_reftree \<Rightarrow> range_tree list \<Rightarrow> space_reftree option" where
  "space_reftree_add_maps mem t [] = Some t"
| "space_reftree_add_maps mem t (rt # rts) =
     Option.bind (space_reftree_add_map mem t rt 1) (\<lambda>t. space_reftree_add_maps mem t rts)"

lemma space_reftree_add_maps_ok:
  assumes "inj mem" and "srt_inv mem t" and "\<forall>rt \<in> set rts. rt_inv rt"
  shows "\<exists>t'. space_reftree_add_maps mem t rts = Some t' \<and> srt_inv mem t' \<and>
    ref_total (srt_refs t') = ref_total (srt_refs t) \<and>
    (\<forall>x. ref_sum (srt_refs t') x = ref_sum (srt_refs t) x + int (length (filter (\<lambda>rt. x \<in> covers (rt_segs rt)) rts)))"
  using assms(2,3)
proof (induction rts arbitrary: t)
  case (Cons rt rts)
  from space_reftree_add_segs_ok [OF assms(1) Cons.prems(1), of "rt_segs rt" 1] Cons.prems(2)
  obtain t1 where t1: "space_reftree_add_map mem t rt 1 = Some t1" "srt_inv mem t1"
      "ref_total (srt_refs t1) = ref_total (srt_refs t)"
      "\<forall>x. ref_sum (srt_refs t1) x = ref_sum (srt_refs t) x + (if x \<in> covers (rt_segs rt) then 1 else 0)"
    by (auto simp: space_reftree_add_map_def dest: rt_invD(2))
  from Cons.IH [OF t1(2)] Cons.prems(2) t1 show ?case by auto
qed simp

text \<open>
  C5. Union and intersection by reference counts. After the range trees \<open>rts\<close> are added with
  count 1, \<open>space_reftree_generate_map\<close> gives the offsets that at least \<open>minref\<close> of them hold, and
  none of its assertions fails: the union for 1, the intersection for the number of trees. The
  addresses of the nodes, which order nodes of one offset, do not matter.
\<close>

theorem space_reftree_counts:
  assumes "inj mem" and "\<forall>r \<in> set rts. rt_inv r" and "rt_inv rt" and "0 < minref"
  shows "\<exists>t rt'. space_reftree_add_maps mem space_reftree_create rts = Some t \<and>
    space_reftree_generate_map zr t rt minref = Inr rt' \<and> rt_inv rt' \<and>
    covers (rt_segs rt') = {x. minref \<le> int (length (filter (\<lambda>r. x \<in> covers (rt_segs r)) rts))}"
proof -
  have "srt_inv mem space_reftree_create" by (simp add: srt_inv_def space_reftree_create_def)
  from space_reftree_add_maps_ok [OF assms(1) this assms(2)] obtain t
    where t: "space_reftree_add_maps mem space_reftree_create rts = Some t" "srt_inv mem t" "ref_total (srt_refs t) = 0"
      "\<forall>x. ref_sum (srt_refs t) x = int (length (filter (\<lambda>r. x \<in> covers (rt_segs r)) rts))"
    by (auto simp: space_reftree_create_def)
  from space_reftree_generate_map_ok [OF t(2,3) assms(3,4), of zr] t(1,4) show ?thesis by auto
qed

theorem space_reftree_counts_witness:
  "\<exists>a b t rt'. range_tree_add False (range_tree_create False) 100 50 = Inr a \<and>
     range_tree_add False (range_tree_create False) 120 50 = Inr b \<and>
     space_reftree_add_maps id space_reftree_create [a, b] = Some t \<and>
     space_reftree_generate_map False t (range_tree_create False) 2 = Inr rt' \<and>
     covers (rt_segs rt') = {120 ..< 150}"
proof -
  obtain a b where ab: "range_tree_add False (range_tree_create False) 100 50 = Inr a" "rt_inv a"
      "covers (rt_segs a) = {100 ..< 150}"
      "range_tree_add False (range_tree_create False) 120 50 = Inr b" "rt_inv b"
      "covers (rt_segs b) = {120 ..< 170}"
    using range_tree_add_disjoint [OF range_tree_create_inv, of 100 50 False False]
      range_tree_add_disjoint [OF range_tree_create_inv, of 120 50 False False] by auto
  have "{x. 2 \<le> int (length (filter (\<lambda>r. x \<in> covers (rt_segs r)) [a, b]))} = {120 ..< 150}"
    using ab(3,6) by (auto simp: word_le_nat_alt word_less_nat_alt)
  with space_reftree_counts [of id "[a, b]" "range_tree_create False" 2 False] ab range_tree_create_inv
  show ?thesis by auto
qed

text \<open>\<open>space_reftree_destroy\<close> frees every node once and leaves an empty tree for \<open>avl_destroy\<close>.\<close>

lemma space_reftree_destroy_ok:
  "srt_inv mem t \<Longrightarrow> mset (fst (space_reftree_destroy t)) = mset (srt_refs t) \<and>
     avl_numnodes (snd (space_reftree_destroy t)) = 0"
  using avl_drain_all [of "srt_tree t"]
  by (cases "avl_drain (srt_tree t) Cookie_NULL") (auto simp: srt_inv_def space_reftree_destroy_def mset_postorder)

end
