(* ===== verification/Audit_Ring.thy ===== *)
theory Audit_Ring
  imports Prelude
begin

text \<open>
  The audit rings of \<open>module/idm/idm.c\<close> (lines 2023 to 2083, \<open>sm_audit_buf_t\<close> in
  \<open>include/sys/idm/idm.h\<close>) and of \<open>REFCNT_AUDIT\<close> (\<open>include/sys/idm/idm_impl.h\<close>): an array of
  records and an index that is masked after every increment. The record type is a
  parameter; the time stamp of a record is left out.
\<close>

datatype sm_audit_sm_type = SAS_UNDEFINED | SAS_IDM_CONN | SAS_IDM_TASK | SAS_ISCSIT_TGT
  | SAS_ISCSIT_SESS | SAS_ISCSIT_LOGIN | SAS_ISCSI_CMD | SAS_ISCSI_SESS | SAS_ISCSI_CONN | SAS_ISCSI_LOGIN

datatype ('s, 'e) sm_audit_record = SAR_UNDEFINED
  | SAR_STATE_EVENT sm_audit_sm_type 's 'e nat
  | SAR_STATE_CHANGE sm_audit_sm_type 's 's

record 'r audit_buf =
  sab_index :: nat
  sab_max_index :: nat
  sab_records :: "'r list"

text \<open>\<open>bzero\<close> fills the array with \<open>z\<close>, the all-zero record.\<close>

definition audit_init :: "nat \<Rightarrow> 'r \<Rightarrow> 'r audit_buf" where
  "audit_init n z = \<lparr>sab_index = 0, sab_max_index = n - 1, sab_records = replicate n z\<rparr>"

definition audit_put :: "'r audit_buf \<Rightarrow> 'r \<Rightarrow> 'r audit_buf" where
  "audit_put b r =
     b\<lparr>sab_records := (sab_records b)[sab_index b := r],
       sab_index := (sab_index b + 1) AND sab_max_index b\<rparr>"

definition idm_sm_audit_init :: "('s, 'e) sm_audit_record audit_buf" where
  "idm_sm_audit_init = audit_init 32 SAR_UNDEFINED"

definition idm_sm_audit_event ::
  "('s, 'e) sm_audit_record audit_buf \<Rightarrow> sm_audit_sm_type \<Rightarrow> 's \<Rightarrow> 'e \<Rightarrow> nat \<Rightarrow> ('s, 'e) sm_audit_record audit_buf" where
  "idm_sm_audit_event b sm_type current_state event event_info =
     audit_put b (SAR_STATE_EVENT sm_type current_state event event_info)"

definition idm_sm_audit_state_change ::
  "('s, 'e) sm_audit_record audit_buf \<Rightarrow> sm_audit_sm_type \<Rightarrow> 's \<Rightarrow> 's \<Rightarrow> ('s, 'e) sm_audit_record audit_buf" where
  "idm_sm_audit_state_change b sm_type current_state new_state =
     audit_put b (SAR_STATE_CHANGE sm_type current_state new_state)"

text \<open>With a power of two as the size the mask is the remainder.\<close>

lemma audit_mask: "(i :: nat) AND (2 ^ k - Suc 0) = i mod 2 ^ k"
  using take_bit_eq_mask [of k i] by (simp add: mask_eq_exp_minus_1 take_bit_eq_mod)

lemma audit_put_shape:
  assumes "b = fold (\<lambda>r b. audit_put b r) rs (audit_init (2 ^ k) z)"
  shows "sab_index b = length rs mod 2 ^ k \<and> sab_max_index b = 2 ^ k - 1 \<and> length (sab_records b) = 2 ^ k"
  using assms
proof (induction rs arbitrary: b rule: rev_induct)
  case (snoc r rs)
  then show ?case by (simp add: audit_put_def audit_mask mod_Suc_eq)
qed (simp add: audit_init_def)

lemma mod_less_same:
  fixes i n m :: nat
  assumes "n < i + m" and "i < n" and "i mod m = n mod m"
  shows False
proof -
  have "m dvd n - i" using assms(2,3) mod_eq_dvd_iff_nat [of i n m] by simp
  with assms(1,2) show False by (auto dest: dvd_imp_le)
qed

text \<open>
  C24. The audit ring keeps the latest records: after any sequence of records the last
  \<open>2 ^ k\<close> of them (32 for a state machine) are in the array, each at its index modulo the size.
\<close>

theorem audit_keeps_latest:
  assumes "i < length rs" and "length rs \<le> i + 2 ^ k"
  shows "sab_records (fold (\<lambda>r b. audit_put b r) rs (audit_init (2 ^ k) z)) ! (i mod 2 ^ k) = rs ! i"
  using assms
proof (induction rs rule: rev_induct)
  case (snoc r rs)
  let ?b = "fold (\<lambda>r b. audit_put b r) rs (audit_init (2 ^ k) z)"
  have shape: "sab_index ?b = length rs mod 2 ^ k" "length (sab_records ?b) = 2 ^ k"
    using audit_put_shape [OF refl, of rs k z] by auto
  show ?case
  proof (cases "i = length rs")
    case True
    with shape show ?thesis by (simp add: audit_put_def)
  next
    case False
    with snoc.prems have i: "i < length rs" "length rs < i + 2 ^ k" by auto
    then have "i mod 2 ^ k \<noteq> length rs mod 2 ^ k" using mod_less_same by blast
    with i snoc.IH shape show ?thesis by (simp add: audit_put_def nth_append)
  qed
qed simp

theorem audit_keeps_latest_witness:
  "sab_records (fold (\<lambda>r b. audit_put b r) [5, 6, 7 :: nat] (audit_init (2 ^ 1) 0)) ! (1 mod 2 ^ 1) = 6"
  using audit_keeps_latest [of 1 "[5, 6, 7 :: nat]" 1 0] by simp

end
