(* ===== verification/Idm.thy ===== *)
theory Idm
  imports Audit_Ring
begin

text \<open>
  The iSCSI data mover (IDM) below its connection state machine: the types of
  \<open>include/sys/idm/idm_conn_sm.h\<close>, \<open>idm.h\<close> and \<open>idm_impl.h\<close>, reference counting and PDU completion
  (\<open>module/idm/idm.c\<close>), the posting of events to a connection's task queue
  (\<open>module/idm/idm_conn_sm.c\<close>), and the receive and transmit paths that turn PDUs into events
  (\<open>module/idm/idm_impl.c\<close>, \<open>idm_pdu_tx\<close> of \<open>idm.c\<close>).

  A connection is one record. Its task queue (one thread, so first in first out) is the list of
  events still to be handled. PDUs live in a store indexed by their address; address 0 is the
  null pointer. Armed timers are a list of identifiers. Every call out of IDM (client
  callbacks, transport operations, wake-ups, a failed \<open>ASSERT\<close>) is recorded in a trace.
\<close>

section \<open>Enumerations\<close>

datatype idm_status = IDM_STATUS_SUCCESS | IDM_STATUS_FAIL | IDM_STATUS_NORESOURCES
  | IDM_STATUS_REJECT | IDM_STATUS_IO | IDM_STATUS_ABORTED | IDM_STATUS_SUSPENDED
  | IDM_STATUS_HEADER_DIGEST | IDM_STATUS_DATA_DIGEST | IDM_STATUS_PROTOCOL_ERROR
  | IDM_STATUS_LOGIN_FAIL

datatype idm_client_notify = CN_CONNECT_ACCEPT | CN_LOGIN_FAIL | CN_READY_FOR_LOGIN
  | CN_FFP_ENABLED | CN_FFP_DISABLED | CN_CONNECT_LOST | CN_CONNECT_DESTROY | CN_CONNECT_FAIL
  | CN_MAX

datatype idm_ffp_disable_type = FD_CONN_FAIL | FD_CONN_LOGOUT | FD_SESS_LOGOUT

datatype idm_abort_type = AT_INTERNAL_SUSPEND | AT_INTERNAL_ABORT | AT_TASK_MGMT_ABORT

datatype idm_conn_event_t = CE_UNDEFINED
  | CE_CONNECT_REQ | CE_CONNECT_FAIL | CE_CONNECT_SUCCESS | CE_LOGIN_SND
  | CE_LOGIN_SUCCESS_RCV | CE_LOGIN_FAIL_RCV | CE_LOGOUT_THIS_CONN_SND
  | CE_LOGOUT_OTHER_CONN_SND | CE_LOGOUT_SESSION_SND | CE_LOGOUT_SUCCESS_RCV
  | CE_LOGOUT_FAIL_RCV | CE_ASYNC_LOGOUT_RCV | CE_ASYNC_DROP_CONN_RCV
  | CE_ASYNC_DROP_ALL_CONN_RCV
  | CE_CONNECT_ACCEPT | CE_CONNECT_REJECT | CE_LOGIN_RCV | CE_LOGIN_TIMEOUT
  | CE_LOGIN_SUCCESS_SND | CE_LOGIN_FAIL_SND | CE_LOGIN_FAIL_SND_DONE
  | CE_LOGOUT_THIS_CONN_RCV | CE_LOGOUT_OTHER_CONN_RCV | CE_LOGOUT_SESSION_RCV
  | CE_LOGOUT_SUCCESS_SND | CE_LOGOUT_SUCCESS_SND_DONE | CE_LOGOUT_FAIL_SND
  | CE_LOGOUT_FAIL_SND_DONE | CE_CLEANUP_TIMEOUT | CE_ASYNC_LOGOUT_SND
  | CE_ASYNC_DROP_CONN_SND | CE_ASYNC_DROP_ALL_CONN_SND | CE_LOGOUT_TIMEOUT
  | CE_TRANSPORT_FAIL | CE_MISC_TX | CE_TX_PROTOCOL_ERROR | CE_MISC_RX
  | CE_RX_PROTOCOL_ERROR | CE_LOGOUT_SESSION_SUCCESS | CE_CONN_REINSTATE
  | CE_CONN_REINSTATE_SUCCESS | CE_CONN_REINSTATE_FAIL | CE_ENABLE_DM_SUCCESS
  | CE_ENABLE_DM_FAIL | CE_MAX_EVENT

datatype idm_conn_state = CS_S0_UNDEFINED | CS_S1_FREE | CS_S2_XPT_WAIT | CS_S3_XPT_UP
  | CS_S4_IN_LOGIN | CS_S5_LOGGED_IN | CS_S6_IN_LOGOUT | CS_S7_LOGOUT_REQ | CS_S8_CLEANUP
  | CS_S9_INIT_ERROR | CS_S10_IN_CLEANUP | CS_S11_COMPLETE | CS_S12_ENABLE_DM
  | CS_S9A_REJECTED | CS_S9B_WAIT_SND_DONE | CS_MAX_STATE

datatype idm_pdu_event_type = CT_NONE | CT_RX_PDU | CT_TX_PDU

datatype idm_pdu_event_action = CA_TX_PROTOCOL_ERROR | CA_RX_PROTOCOL_ERROR | CA_FORWARD | CA_DROP

datatype idm_conn_type = CONN_TYPE_INI | CONN_TYPE_TGT

datatype idm_refcnt_wait = REF_NOWAIT | REF_WAIT_SYNC | REF_WAIT_ASYNC

section \<open>State\<close>

type_synonym addr = nat

text \<open>A PDU completion callback: none, one of the client's, or one IDM interposed.\<close>

datatype idm_pdu_cb = CB_NULL | CB_CLIENT nat
  | CB_s9b_wait_snd_done | CB_s6_logout_success_snd_done | CB_s6_logout_fail_snd_done

text \<open>The part of a PDU that IDM reads; the header fields overlay one another in the source.\<close>

record idm_pdu =
  hdr_opcode :: u8
  hdr_flags :: u8
  hdr_cid :: u16
  hdr_status_class :: u8
  hdr_response :: u8
  hdr_async_event :: u8
  isp_callback :: idm_pdu_cb
  isp_status :: idm_status

record idm_conn_event_ctx =
  iec_event :: idm_conn_event_t
  iec_info :: addr
  iec_pdu_event_type :: idm_pdu_event_type
  iec_pdu_forwarded :: bool

text \<open>The callbacks the state machine waits for the last reference with.\<close>

datatype idm_refcnt_cb = UNREF_NULL | UNREF_conn_unref | UNREF_conn_reject_unref

record idm_refcnt =
  ir_refcnt :: int
  ir_waiting :: idm_refcnt_wait
  ir_cb :: idm_refcnt_cb

datatype idm_timer = T_LOGIN | T_LOGOUT | T_CLEANUP

datatype idm_handler = H_rx_scsi_cmd | H_rx_dataout | H_rx_misc | H_rx_scsi_rsp | H_rx_datain | H_rx_rtt

datatype idm_action =
    A_ASSERT
  | A_NOTIFY idm_client_notify nat
  | A_INI_CONNECT | A_TGT_CONNECT | A_INI_DISCONNECT | A_TGT_DISCONNECT
  | A_INI_ENABLE_DM | A_TGT_ENABLE_DM
  | A_TASK_ABORT idm_abort_type
  | A_RX idm_handler addr
  | A_TX addr
  | A_RX_ERROR addr idm_status
  | A_CALLBACK nat addr idm_status
  | A_PDU_FREE addr
  | A_PEER_EVENT addr idm_conn_event_t addr
  | A_CV_SIGNAL
  | A_DISPATCH_UNREF idm_refcnt_cb
  | A_SVC_CONN_DESTROY

record idm_conn =
  ic_conn_type :: idm_conn_type
  ic_state :: idm_conn_state
  ic_last_state :: idm_conn_state
  ic_state_audit :: "(idm_conn_state, idm_conn_event_t) sm_audit_record audit_buf"
  ic_state_flags :: u32
  ic_state_timeout :: nat
  ic_reinstate_conn :: addr
  ic_state_taskq :: "idm_conn_event_ctx list"
  ic_pdu_events :: int
  ic_login_info_valid :: bool
  ic_rdma_extensions :: bool
  ic_login_cid :: u16
  ic_conn_sm_status :: idm_status
  ic_ffp :: bool
  ic_client_callback :: idm_pdu_cb
  ic_refcnt :: idm_refcnt
  ic_pdus :: "addr \<Rightarrow> idm_pdu"
  ic_timers :: "(nat \<times> idm_timer) list"
  ic_next_timer :: nat
  ic_trace :: "idm_action list"

abbreviation IDM_CONN_ISINI :: "idm_conn \<Rightarrow> bool" where
  "IDM_CONN_ISINI ic \<equiv> ic_conn_type ic = CONN_TYPE_INI"

abbreviation IDM_CONN_ISTGT :: "idm_conn \<Rightarrow> bool" where
  "IDM_CONN_ISTGT ic \<equiv> ic_conn_type ic = CONN_TYPE_TGT"

definition CF_LOGIN_READY :: u32 where "CF_LOGIN_READY = 0x00000001"
definition CF_INITIAL_LOGIN :: u32 where "CF_INITIAL_LOGIN = 0x00000002"
definition CF_ERROR :: u32 where "CF_ERROR = 0x80000000"

definition act :: "idm_conn \<Rightarrow> idm_action \<Rightarrow> idm_conn" where
  "act ic a = ic\<lparr>ic_trace := ic_trace ic @ [a]\<rparr>"

text \<open>\<open>ASSERT(c)\<close>: recorded when it fails; a build without \<open>DEBUG\<close> goes on.\<close>

definition assert :: "bool \<Rightarrow> idm_conn \<Rightarrow> idm_conn" where
  "assert c ic = (if c then ic else act ic A_ASSERT)"

section \<open>Reference counts\<close>

text \<open>
  The reference count of a connection; the ring of \<open>REFCNT_AUDIT\<close> is left out. Dispatching
  the unreference task to the global task queue is an action of the trace.
\<close>

definition idm_refcnt_reset :: "idm_refcnt \<Rightarrow> idm_refcnt" where
  "idm_refcnt_reset r = r\<lparr>ir_waiting := REF_NOWAIT, ir_refcnt := 0\<rparr>"

definition idm_refcnt_init :: idm_refcnt where
  "idm_refcnt_init = idm_refcnt_reset \<lparr>ir_refcnt = 0, ir_waiting = REF_NOWAIT, ir_cb = UNREF_NULL\<rparr>"

definition idm_conn_hold :: "idm_conn \<Rightarrow> idm_conn" where
  "idm_conn_hold ic =
     (let ic = assert (ir_waiting (ic_refcnt ic) = REF_NOWAIT) ic; r = ic_refcnt ic
      in ic\<lparr>ic_refcnt := r\<lparr>ir_refcnt := ir_refcnt r + 1\<rparr>\<rparr>)"

definition idm_conn_rele :: "idm_conn \<Rightarrow> idm_conn" where
  "idm_conn_rele ic =
     (let ic = assert (ir_refcnt (ic_refcnt ic) > 0) ic;
          r = ic_refcnt ic; r = r\<lparr>ir_refcnt := ir_refcnt r - 1\<rparr>;
          ic = ic\<lparr>ic_refcnt := r\<rparr>
      in if ir_waiting r = REF_NOWAIT then ic
         else if ir_refcnt r = 0 then
           (if ir_waiting r = REF_WAIT_ASYNC then act ic (A_DISPATCH_UNREF (ir_cb r))
            else if ir_waiting r = REF_WAIT_SYNC then act ic A_CV_SIGNAL else ic)
         else ic)"

definition idm_refcnt_async_wait_ref :: "idm_conn \<Rightarrow> idm_refcnt_cb \<Rightarrow> idm_conn" where
  "idm_refcnt_async_wait_ref ic cb_func =
     (let r = (ic_refcnt ic)\<lparr>ir_waiting := REF_WAIT_ASYNC, ir_cb := cb_func\<rparr>;
          ic = ic\<lparr>ic_refcnt := r\<rparr>
      in if ir_refcnt r = 0 then act ic (A_DISPATCH_UNREF cb_func) else ic)"

section \<open>Posting events\<close>

definition terminal :: "idm_conn_state \<Rightarrow> bool" where
  "terminal s \<longleftrightarrow> s = CS_S9_INIT_ERROR \<or> s = CS_S9A_REJECTED \<or> s = CS_S11_COMPLETE"

definition idm_conn_audit :: "idm_conn \<Rightarrow> idm_conn_event_t \<Rightarrow> addr \<Rightarrow> idm_conn" where
  "idm_conn_audit ic event event_info =
     ic\<lparr>ic_state_audit := idm_sm_audit_event (ic_state_audit ic) SAS_IDM_CONN (ic_state ic) event event_info\<rparr>"

definition idm_conn_dispatch ::
  "idm_conn \<Rightarrow> idm_conn_event_t \<Rightarrow> addr \<Rightarrow> idm_pdu_event_type \<Rightarrow> idm_conn" where
  "idm_conn_dispatch ic event event_info pdu_event_type =
     (let ic = idm_conn_hold ic;
          event_ctx = \<lparr>iec_event = event, iec_info = event_info,
                       iec_pdu_event_type = pdu_event_type, iec_pdu_forwarded = False\<rparr>
      in ic\<lparr>ic_state_taskq := ic_state_taskq ic @ [event_ctx]\<rparr>)"

definition idm_conn_event :: "idm_conn \<Rightarrow> idm_conn_event_t \<Rightarrow> addr \<Rightarrow> idm_conn" where
  "idm_conn_event ic event event_info =
     (let ic = idm_conn_audit ic event event_info
      in if terminal (ic_state ic) then ic else idm_conn_dispatch ic event event_info CT_NONE)"

text \<open>
  The completion callbacks that IDM interposes (\<open>idm_state_s9b_wait_snd_done_cb\<close> and the two
  of \<open>idm_state_s6_in_logout\<close>), the client's, and \<open>idm_pdu_complete\<close>.
\<close>

definition pdu_set_status :: "idm_conn \<Rightarrow> addr \<Rightarrow> idm_status \<Rightarrow> idm_conn" where
  "pdu_set_status ic pdu status =
     ic\<lparr>ic_pdus := (ic_pdus ic)(pdu := (ic_pdus ic pdu)\<lparr>isp_status := status\<rparr>)\<rparr>"

definition pdu_set_callback :: "idm_conn \<Rightarrow> addr \<Rightarrow> idm_pdu_cb \<Rightarrow> idm_conn" where
  "pdu_set_callback ic pdu cb =
     ic\<lparr>ic_pdus := (ic_pdus ic)(pdu := (ic_pdus ic pdu)\<lparr>isp_callback := cb\<rparr>)\<rparr>"

definition idm_state_s9b_wait_snd_done_cb :: "idm_conn \<Rightarrow> addr \<Rightarrow> idm_status \<Rightarrow> idm_conn" where
  "idm_state_s9b_wait_snd_done_cb ic pdu status =
     idm_conn_event (pdu_set_status ic pdu status) CE_LOGIN_FAIL_SND_DONE pdu"

definition idm_state_s6_in_logout_success_snd_done :: "idm_conn \<Rightarrow> addr \<Rightarrow> idm_status \<Rightarrow> idm_conn" where
  "idm_state_s6_in_logout_success_snd_done ic pdu status =
     idm_conn_event (pdu_set_status ic pdu status) CE_LOGOUT_SUCCESS_SND_DONE pdu"

definition idm_state_s6_in_logout_fail_snd_done :: "idm_conn \<Rightarrow> addr \<Rightarrow> idm_status \<Rightarrow> idm_conn" where
  "idm_state_s6_in_logout_fail_snd_done ic pdu status =
     idm_conn_event (pdu_set_status ic pdu status) CE_LOGOUT_FAIL_SND_DONE pdu"

definition idm_pdu_complete :: "idm_conn \<Rightarrow> addr \<Rightarrow> idm_status \<Rightarrow> idm_conn" where
  "idm_pdu_complete ic pdu status =
     (case isp_callback (ic_pdus ic pdu) of
        CB_NULL \<Rightarrow> act ic (A_PDU_FREE pdu)
      | CB_CLIENT c \<Rightarrow> act (pdu_set_status ic pdu status) (A_CALLBACK c pdu status)
      | CB_s9b_wait_snd_done \<Rightarrow>
          idm_state_s9b_wait_snd_done_cb (pdu_set_status ic pdu status) pdu status
      | CB_s6_logout_success_snd_done \<Rightarrow>
          idm_state_s6_in_logout_success_snd_done (pdu_set_status ic pdu status) pdu status
      | CB_s6_logout_fail_snd_done \<Rightarrow>
          idm_state_s6_in_logout_fail_snd_done (pdu_set_status ic pdu status) pdu status)"

definition idm_conn_event_locked ::
  "idm_conn \<Rightarrow> idm_conn_event_t \<Rightarrow> addr \<Rightarrow> idm_pdu_event_type \<Rightarrow> idm_conn" where
  "idm_conn_event_locked ic event event_info pdu_event_type =
     (let ic = idm_conn_audit ic event event_info
      in if terminal (ic_state ic) then
           (if pdu_event_type = CT_TX_PDU \<or> pdu_event_type = CT_RX_PDU
            then idm_pdu_complete (ic\<lparr>ic_pdu_events := ic_pdu_events ic - 1\<rparr>) event_info IDM_STATUS_SUCCESS
            else ic)
         else idm_conn_dispatch ic event event_info pdu_event_type)"

definition idm_conn_tx_pdu_event :: "idm_conn \<Rightarrow> idm_conn_event_t \<Rightarrow> addr \<Rightarrow> idm_conn" where
  "idm_conn_tx_pdu_event ic event event_info =
     idm_conn_event_locked (ic\<lparr>ic_pdu_events := ic_pdu_events ic + 1\<rparr>) event event_info CT_TX_PDU"

definition idm_conn_rx_pdu_event :: "idm_conn \<Rightarrow> idm_conn_event_t \<Rightarrow> addr \<Rightarrow> idm_conn" where
  "idm_conn_rx_pdu_event ic event event_info =
     idm_conn_event_locked (ic\<lparr>ic_pdu_events := ic_pdu_events ic + 1\<rparr>) event event_info CT_RX_PDU"

text \<open>\<open>idm_conn_event\<close> is \<open>idm_conn_event_locked\<close> for an event that carries no PDU.\<close>

lemma idm_conn_event_is_locked:
  "idm_conn_event ic event event_info = idm_conn_event_locked ic event event_info CT_NONE"
  by (simp add: idm_conn_event_def idm_conn_event_locked_def Let_def)

text \<open>
  \<open>idm_conn_reinstate_event\<close>: the comparison \<open>ic_state < CS_S5_LOGGED_IN\<close> is on the
  enumeration's values.
\<close>

definition idm_conn_reinstate_event ::
  "idm_conn \<Rightarrow> idm_conn \<Rightarrow> addr \<Rightarrow> addr \<Rightarrow> idm_status \<times> idm_conn \<times> idm_conn" where
  "idm_conn_reinstate_event old_ic new_ic old_addr new_addr =
     (if (ic_conn_type old_ic = CONN_TYPE_INI \<and> ic_state old_ic \<noteq> CS_S8_CLEANUP) \<or>
         (ic_conn_type old_ic = CONN_TYPE_TGT \<and>
            ic_state old_ic \<in> {CS_S0_UNDEFINED, CS_S1_FREE, CS_S2_XPT_WAIT, CS_S3_XPT_UP, CS_S4_IN_LOGIN})
      then (IDM_STATUS_FAIL, old_ic, new_ic)
      else (IDM_STATUS_SUCCESS, idm_conn_event_locked old_ic CE_CONN_REINSTATE new_addr CT_NONE,
            new_ic\<lparr>ic_reinstate_conn := old_addr\<rparr>))"

section \<open>PDUs\<close>

text \<open>The operation codes of \<open>include/sys/iscsi_protocol.h\<close>.\<close>

abbreviation ISCSI_OP_NOOP_OUT :: u8 where "ISCSI_OP_NOOP_OUT \<equiv> 0x00"
abbreviation ISCSI_OP_SCSI_CMD :: u8 where "ISCSI_OP_SCSI_CMD \<equiv> 0x01"
abbreviation ISCSI_OP_SCSI_TASK_MGT_MSG :: u8 where "ISCSI_OP_SCSI_TASK_MGT_MSG \<equiv> 0x02"
abbreviation ISCSI_OP_LOGIN_CMD :: u8 where "ISCSI_OP_LOGIN_CMD \<equiv> 0x03"
abbreviation ISCSI_OP_TEXT_CMD :: u8 where "ISCSI_OP_TEXT_CMD \<equiv> 0x04"
abbreviation ISCSI_OP_SCSI_DATA :: u8 where "ISCSI_OP_SCSI_DATA \<equiv> 0x05"
abbreviation ISCSI_OP_LOGOUT_CMD :: u8 where "ISCSI_OP_LOGOUT_CMD \<equiv> 0x06"
abbreviation ISCSI_OP_SNACK_CMD :: u8 where "ISCSI_OP_SNACK_CMD \<equiv> 0x10"
abbreviation ISCSI_OP_NOOP_IN :: u8 where "ISCSI_OP_NOOP_IN \<equiv> 0x20"
abbreviation ISCSI_OP_SCSI_RSP :: u8 where "ISCSI_OP_SCSI_RSP \<equiv> 0x21"
abbreviation ISCSI_OP_SCSI_TASK_MGT_RSP :: u8 where "ISCSI_OP_SCSI_TASK_MGT_RSP \<equiv> 0x22"
abbreviation ISCSI_OP_LOGIN_RSP :: u8 where "ISCSI_OP_LOGIN_RSP \<equiv> 0x23"
abbreviation ISCSI_OP_TEXT_RSP :: u8 where "ISCSI_OP_TEXT_RSP \<equiv> 0x24"
abbreviation ISCSI_OP_SCSI_DATA_RSP :: u8 where "ISCSI_OP_SCSI_DATA_RSP \<equiv> 0x25"
abbreviation ISCSI_OP_LOGOUT_RSP :: u8 where "ISCSI_OP_LOGOUT_RSP \<equiv> 0x26"
abbreviation ISCSI_OP_RTT_RSP :: u8 where "ISCSI_OP_RTT_RSP \<equiv> 0x31"
abbreviation ISCSI_OP_ASYNC_EVENT :: u8 where "ISCSI_OP_ASYNC_EVENT \<equiv> 0x32"
abbreviation ISCSI_OP_REJECT_MSG :: u8 where "ISCSI_OP_REJECT_MSG \<equiv> 0x3f"

definition IDM_PDU_OPCODE :: "idm_pdu \<Rightarrow> u8" where
  "IDM_PDU_OPCODE pdu = hdr_opcode pdu AND 0x3F"

abbreviation opcode :: "idm_conn \<Rightarrow> addr \<Rightarrow> u8" where
  "opcode ic pdu \<equiv> IDM_PDU_OPCODE (ic_pdus ic pdu)"

text \<open>\<open>ntohs\<close> on a little-endian host.\<close>

definition ntohs :: "u16 \<Rightarrow> u16" where
  "ntohs x = push_bit 8 x OR drop_bit 8 x"

definition idm_pdu_tx_forward :: "idm_conn \<Rightarrow> addr \<Rightarrow> idm_conn" where
  "idm_pdu_tx_forward ic pdu = act ic (A_TX pdu)"

definition idm_pdu_rx_forward_ffp :: "idm_conn \<Rightarrow> addr \<Rightarrow> idm_conn \<times> bool" where
  "idm_pdu_rx_forward_ffp ic pdu =
     (let op = opcode ic pdu in
      if op = ISCSI_OP_SCSI_CMD then (act ic (A_RX H_rx_scsi_cmd pdu), True)
      else if op = ISCSI_OP_SCSI_DATA then (act ic (A_RX H_rx_dataout pdu), True)
      else if op = ISCSI_OP_SCSI_TASK_MGT_MSG then (act ic (A_RX H_rx_misc pdu), True)
      else if op = ISCSI_OP_NOOP_OUT then (act ic (A_RX H_rx_misc pdu), True)
      else if op = ISCSI_OP_TEXT_CMD then (act ic (A_RX H_rx_misc pdu), True)
      else if op = ISCSI_OP_SCSI_RSP then (act ic (A_RX H_rx_scsi_rsp pdu), True)
      else if op = ISCSI_OP_SCSI_DATA_RSP then (act ic (A_RX H_rx_datain pdu), True)
      else if op = ISCSI_OP_RTT_RSP then (act ic (A_RX H_rx_rtt pdu), True)
      else if op \<in> {ISCSI_OP_SCSI_TASK_MGT_RSP, ISCSI_OP_TEXT_RSP, ISCSI_OP_NOOP_IN}
      then (act ic (A_RX H_rx_misc pdu), True)
      else (ic, False))"

definition idm_pdu_rx_forward :: "idm_conn \<Rightarrow> addr \<Rightarrow> idm_conn" where
  "idm_pdu_rx_forward ic pdu =
     (case idm_pdu_rx_forward_ffp ic pdu of
        (ic, done) \<Rightarrow> if \<not> done then act ic (A_RX H_rx_misc pdu) else ic)"

definition idm_parse_login_rsp :: "idm_conn \<Rightarrow> addr \<Rightarrow> bool \<Rightarrow> idm_conn" where
  "idm_parse_login_rsp ic login_rsp_pdu rx =
     (let login_rsp = ic_pdus ic login_rsp_pdu;
          new_event =
            (if hdr_status_class login_rsp = 0x00 then
               (if hdr_flags login_rsp AND 0x40 = 0 \<and> hdr_flags login_rsp AND 0x80 \<noteq> 0 \<and>
                   hdr_flags login_rsp AND 0x03 = 3
                then (if rx then CE_LOGIN_SUCCESS_RCV else CE_LOGIN_SUCCESS_SND)
                else (if rx then CE_MISC_RX else CE_MISC_TX))
             else (if rx then CE_LOGIN_FAIL_RCV else CE_LOGIN_FAIL_SND))
      in if rx then idm_conn_rx_pdu_event ic new_event login_rsp_pdu
         else idm_conn_tx_pdu_event ic new_event login_rsp_pdu)"

definition idm_parse_logout_req :: "idm_conn \<Rightarrow> addr \<Rightarrow> bool \<Rightarrow> idm_conn" where
  "idm_parse_logout_req ic logout_req_pdu rx =
     (let logout_req = ic_pdus ic logout_req_pdu;
          reason = hdr_flags logout_req AND 0x7F;
          new_event =
            (if reason = 0 then (if rx then CE_LOGOUT_SESSION_RCV else CE_LOGOUT_SESSION_SND)
             else if reason = 1 \<or> reason = 2 then
               (if ntohs (hdr_cid logout_req) = ic_login_cid ic
                then (if rx then CE_LOGOUT_THIS_CONN_RCV else CE_LOGOUT_THIS_CONN_SND)
                else (if rx then CE_MISC_RX else CE_MISC_TX))
             else (if rx then CE_RX_PROTOCOL_ERROR else CE_TX_PROTOCOL_ERROR))
      in if rx then idm_conn_rx_pdu_event ic new_event logout_req_pdu
         else idm_conn_tx_pdu_event ic new_event logout_req_pdu)"

definition idm_parse_logout_rsp :: "idm_conn \<Rightarrow> addr \<Rightarrow> bool \<Rightarrow> idm_conn" where
  "idm_parse_logout_rsp ic logout_rsp_pdu rx =
     (let logout_rsp = ic_pdus ic logout_rsp_pdu;
          new_event =
            (if hdr_response logout_rsp = 0x00
             then (if rx then CE_LOGOUT_SUCCESS_RCV else CE_LOGOUT_SUCCESS_SND)
             else (if rx then CE_LOGOUT_FAIL_RCV else CE_LOGOUT_FAIL_SND))
      in if rx then idm_conn_rx_pdu_event ic new_event logout_rsp_pdu
         else idm_conn_tx_pdu_event ic new_event logout_rsp_pdu)"

text \<open>
  The slow path of \<open>idm_pdu_rx\<close>. Its \<open>switch\<close> has no \<open>default\<close> and no case for
  \<open>ISCSI_OP_SCSI_RSP\<close>.
\<close>

definition idm_pdu_rx_event :: "idm_conn \<Rightarrow> addr \<Rightarrow> idm_conn" where
  "idm_pdu_rx_event ic pdu =
     (let op = opcode ic pdu in
      if op = ISCSI_OP_LOGIN_CMD then idm_conn_rx_pdu_event ic CE_LOGIN_RCV pdu
      else if op = ISCSI_OP_LOGIN_RSP then idm_parse_login_rsp ic pdu True
      else if op = ISCSI_OP_LOGOUT_CMD then idm_parse_logout_req ic pdu True
      else if op = ISCSI_OP_LOGOUT_RSP then idm_parse_logout_rsp ic pdu True
      else if op = ISCSI_OP_ASYNC_EVENT then
        (let async_event = hdr_async_event (ic_pdus ic pdu) in
         if async_event = 1 then idm_conn_rx_pdu_event ic CE_ASYNC_LOGOUT_RCV pdu
         else if async_event = 2 then idm_conn_rx_pdu_event ic CE_ASYNC_DROP_CONN_RCV pdu
         else if async_event = 3 then idm_conn_rx_pdu_event ic CE_ASYNC_DROP_ALL_CONN_RCV pdu
         else idm_conn_rx_pdu_event ic CE_MISC_RX pdu)
      else if op = ISCSI_OP_SCSI_CMD then idm_conn_rx_pdu_event ic CE_MISC_RX pdu
      else if op = ISCSI_OP_SCSI_DATA then idm_conn_rx_pdu_event ic CE_MISC_RX pdu
      else if op = ISCSI_OP_SCSI_TASK_MGT_MSG then idm_conn_rx_pdu_event ic CE_MISC_RX pdu
      else if op = ISCSI_OP_NOOP_OUT then idm_conn_rx_pdu_event ic CE_MISC_RX pdu
      else if op = ISCSI_OP_TEXT_CMD then idm_conn_rx_pdu_event ic CE_MISC_RX pdu
      else if op \<in> {ISCSI_OP_SCSI_DATA_RSP, ISCSI_OP_RTT_RSP, ISCSI_OP_SNACK_CMD, ISCSI_OP_NOOP_IN,
          ISCSI_OP_TEXT_RSP, ISCSI_OP_REJECT_MSG, ISCSI_OP_SCSI_TASK_MGT_RSP}
      then idm_conn_rx_pdu_event ic CE_MISC_RX pdu
      else ic)"

definition idm_pdu_rx :: "idm_conn \<Rightarrow> addr \<Rightarrow> idm_conn" where
  "idm_pdu_rx ic pdu =
     (if ic_ffp ic \<and> ic_pdu_events ic = 0 then
        (case idm_pdu_rx_forward_ffp ic pdu of
           (ic, forwarded) \<Rightarrow> if forwarded then ic else idm_pdu_rx_event ic pdu)
      else idm_pdu_rx_event ic pdu)"

definition idm_pdu_tx_event :: "idm_conn \<Rightarrow> addr \<Rightarrow> idm_conn" where
  "idm_pdu_tx_event ic pdu =
     (let op = opcode ic pdu in
      if op = ISCSI_OP_LOGIN_CMD then idm_conn_tx_pdu_event ic CE_LOGIN_SND pdu
      else if op = ISCSI_OP_LOGIN_RSP then idm_parse_login_rsp ic pdu False
      else if op = ISCSI_OP_LOGOUT_CMD then idm_parse_logout_req ic pdu False
      else if op = ISCSI_OP_LOGOUT_RSP then idm_parse_logout_rsp ic pdu False
      else if op = ISCSI_OP_ASYNC_EVENT then
        (let async_event = hdr_async_event (ic_pdus ic pdu) in
         if async_event = 1 then idm_conn_tx_pdu_event ic CE_ASYNC_LOGOUT_SND pdu
         else if async_event = 2 then idm_conn_tx_pdu_event ic CE_ASYNC_DROP_CONN_SND pdu
         else if async_event = 3 then idm_conn_tx_pdu_event ic CE_ASYNC_DROP_ALL_CONN_SND pdu
         else idm_conn_tx_pdu_event ic CE_MISC_TX pdu)
      else idm_conn_tx_pdu_event ic CE_MISC_TX pdu)"

definition idm_pdu_tx :: "idm_conn \<Rightarrow> addr \<Rightarrow> idm_conn" where
  "idm_pdu_tx ic pdu =
     (if ic_ffp ic \<and> ic_pdu_events ic = 0 then
        (if opcode ic pdu \<in> {ISCSI_OP_SCSI_RSP, ISCSI_OP_SCSI_TASK_MGT_RSP, ISCSI_OP_SCSI_DATA_RSP,
            ISCSI_OP_RTT_RSP, ISCSI_OP_NOOP_IN, ISCSI_OP_TEXT_RSP, ISCSI_OP_TEXT_CMD,
            ISCSI_OP_NOOP_OUT, ISCSI_OP_SCSI_CMD, ISCSI_OP_SCSI_DATA, ISCSI_OP_SCSI_TASK_MGT_MSG}
         then idm_pdu_tx_forward ic pdu
         else idm_pdu_tx_event ic pdu)
      else idm_pdu_tx_event ic pdu)"

end
