(* ===== verification/Idm_Conn_SM.thy ===== *)
theory Idm_Conn_SM
  imports Idm
begin

text \<open>
  The connection state machine of \<open>module/idm/idm_conn_sm.c\<close>: the validation of PDUs against
  the connection's role and state, one handler per state, the actions on entering a state
  (\<open>idm_update_state\<close>), and \<open>idm_conn_event_handler\<close>, the task that handles one queued event.

  The transport (\<open>ic_transport_ops\<close>) and the client (\<open>icb_client_notify\<close>) are reached through
  function pointers: what they return is the parameter \<open>env\<close>, any functions of the connection.
\<close>

section \<open>The environment\<close>

record idm_env =
  it_ini_conn_connect :: "idm_conn \<Rightarrow> idm_status"
  it_tgt_conn_connect :: "idm_conn \<Rightarrow> idm_status"
  it_ini_enable_datamover :: "idm_conn \<Rightarrow> idm_status"
  it_tgt_enable_datamover :: "idm_conn \<Rightarrow> idm_status"
  icb_client_notify :: "idm_conn \<Rightarrow> idm_client_notify \<Rightarrow> nat \<Rightarrow> idm_status"

definition idm_notify_client :: "idm_env \<Rightarrow> idm_conn \<Rightarrow> idm_client_notify \<Rightarrow> nat \<Rightarrow> idm_conn \<times> idm_status" where
  "idm_notify_client env ic cn data =
     (let ic = act ic (A_NOTIFY cn data) in (ic, icb_client_notify env ic cn data))"

text \<open>A notification whose result is cast to \<open>void\<close>.\<close>

abbreviation notify :: "idm_env \<Rightarrow> idm_conn \<Rightarrow> idm_client_notify \<Rightarrow> nat \<Rightarrow> idm_conn" where
  "notify env ic cn data \<equiv> fst (idm_notify_client env ic cn data)"

definition idm_ini_conn_finish :: "idm_env \<Rightarrow> idm_conn \<Rightarrow> idm_conn \<times> idm_status" where
  "idm_ini_conn_finish env ic = (let ic = act ic A_INI_CONNECT in (ic, it_ini_conn_connect env ic))"

definition idm_tgt_conn_finish :: "idm_env \<Rightarrow> idm_conn \<Rightarrow> idm_conn \<times> idm_status" where
  "idm_tgt_conn_finish env ic =
     (case idm_notify_client env ic CN_CONNECT_ACCEPT 0 of (ic, rc) \<Rightarrow>
        if rc \<noteq> IDM_STATUS_SUCCESS then (ic, IDM_STATUS_REJECT)
        else (let ic = act ic A_TGT_CONNECT in (ic, it_tgt_conn_connect env ic)))"

definition conn_disconnect :: "idm_conn \<Rightarrow> idm_conn" where
  "conn_disconnect ic = act ic (if IDM_CONN_ISTGT ic then A_TGT_DISCONNECT else A_INI_DISCONNECT)"

section \<open>Timers\<close>

definition timeout :: "idm_conn \<Rightarrow> idm_timer \<Rightarrow> idm_conn" where
  "timeout ic t =
     ic\<lparr>ic_timers := ic_timers ic @ [(ic_next_timer ic, t)], ic_state_timeout := ic_next_timer ic,
        ic_next_timer := ic_next_timer ic + 1\<rparr>"

definition untimeout :: "idm_conn \<Rightarrow> idm_conn" where
  "untimeout ic = ic\<lparr>ic_timers := filter (\<lambda>(i, t). i \<noteq> ic_state_timeout ic) (ic_timers ic)\<rparr>"

definition idm_login_timeout :: "idm_conn \<Rightarrow> idm_conn" where
  "idm_login_timeout ic = idm_conn_event ic CE_LOGIN_TIMEOUT 0"

definition idm_logout_req_timeout :: "idm_conn \<Rightarrow> idm_conn" where
  "idm_logout_req_timeout ic = idm_conn_event ic CE_LOGOUT_TIMEOUT 0"

definition idm_cleanup_timeout :: "idm_conn \<Rightarrow> idm_conn" where
  "idm_cleanup_timeout ic = idm_conn_event ic CE_CLEANUP_TIMEOUT 0"

text \<open>An armed timer goes off: it is no longer armed, and its function runs.\<close>

definition timer_fires :: "idm_conn \<Rightarrow> nat \<times> idm_timer \<Rightarrow> idm_conn" where
  "timer_fires ic t =
     (let ic = ic\<lparr>ic_timers := remove1 t (ic_timers ic)\<rparr>
      in case snd t of T_LOGIN \<Rightarrow> idm_login_timeout ic
         | T_LOGOUT \<Rightarrow> idm_logout_req_timeout ic | T_CLEANUP \<Rightarrow> idm_cleanup_timeout ic)"

section \<open>Full feature phase and login\<close>

definition idm_ffp_enable :: "idm_env \<Rightarrow> idm_conn \<Rightarrow> idm_conn \<times> idm_status" where
  "idm_ffp_enable env ic =
     (case idm_notify_client env (ic\<lparr>ic_ffp := True\<rparr>) CN_FFP_ENABLED 0 of (ic, rc) \<Rightarrow>
        (if rc \<noteq> IDM_STATUS_SUCCESS then ic\<lparr>ic_ffp := False\<rparr> else ic, rc))"

fun ffp_disable_data :: "idm_ffp_disable_type \<Rightarrow> nat" where
  "ffp_disable_data FD_CONN_FAIL = 0"
| "ffp_disable_data FD_CONN_LOGOUT = 1"
| "ffp_disable_data FD_SESS_LOGOUT = 2"

definition idm_ffp_disable :: "idm_env \<Rightarrow> idm_conn \<Rightarrow> idm_ffp_disable_type \<Rightarrow> idm_conn" where
  "idm_ffp_disable env ic disable_type =
     notify env (ic\<lparr>ic_ffp := False\<rparr>) CN_FFP_DISABLED (ffp_disable_data disable_type)"

definition idm_initial_login_actions :: "idm_conn \<Rightarrow> idm_conn_event_ctx \<Rightarrow> idm_conn" where
  "idm_initial_login_actions ic ctx =
     (let ic = assert (iec_event ctx = CE_LOGIN_RCV \<or> iec_event ctx = CE_LOGIN_SND) ic
      in ic\<lparr>ic_state_flags := ic_state_flags ic OR CF_INITIAL_LOGIN,
            ic_login_cid := ntohs (hdr_cid (ic_pdus ic (iec_info ctx)))\<rparr>)"

definition idm_login_success_actions :: "idm_conn \<Rightarrow> idm_conn_event_ctx \<Rightarrow> idm_conn" where
  "idm_login_success_actions ic ctx =
     (assert (iec_event ctx = CE_LOGIN_SUCCESS_RCV \<or> iec_event ctx = CE_LOGIN_SUCCESS_SND) ic)
       \<lparr>ic_login_info_valid := True\<rparr>"

section \<open>Entering a state\<close>

definition idm_enter_complete :: "idm_env \<Rightarrow> idm_conn \<Rightarrow> idm_conn" where
  "idm_enter_complete env ic =
     (let ic = (if IDM_CONN_ISTGT ic \<or>
                   (ic_last_state ic \<noteq> CS_S1_FREE \<and> ic_last_state ic \<noteq> CS_S2_XPT_WAIT)
                then notify env ic CN_CONNECT_LOST (if ic_last_state ic = CS_S4_IN_LOGIN then 1 else 0)
                else ic);
          ic = act ic (A_TASK_ABORT AT_INTERNAL_ABORT)
      in idm_refcnt_async_wait_ref ic UNREF_conn_unref)"

definition idm_enter_init_error :: "idm_env \<Rightarrow> idm_conn \<Rightarrow> idm_conn" where
  "idm_enter_init_error env ic =
     (let ic =
        (if IDM_CONN_ISTGT ic then act ic A_TGT_DISCONNECT
         else
           (let ic = ic\<lparr>ic_state_flags := ic_state_flags ic OR CF_ERROR,
                        ic_conn_sm_status := IDM_STATUS_FAIL\<rparr>;
                ic = act ic A_CV_SIGNAL
            in if ic_last_state ic \<noteq> CS_S1_FREE \<and> ic_last_state ic \<noteq> CS_S2_XPT_WAIT
               then act ic A_INI_DISCONNECT
               else notify env ic CN_CONNECT_FAIL 0))
      in idm_enter_complete env ic)"

definition idm_enter_logged_in :: "idm_env \<Rightarrow> idm_conn \<Rightarrow> idm_conn" where
  "idm_enter_logged_in env ic =
     (case idm_ffp_enable env (assert (\<not> ic_ffp ic) ic) of (ic, idm_status) \<Rightarrow>
        (let ic = (if idm_status \<noteq> IDM_STATUS_SUCCESS then idm_conn_event ic CE_TRANSPORT_FAIL 0 else ic)
         in if ic_reinstate_conn ic \<noteq> 0
            then act ic (A_PEER_EVENT (ic_reinstate_conn ic) CE_CONN_REINSTATE_SUCCESS 0) else ic))"

definition idm_enter_enable_dm :: "idm_env \<Rightarrow> idm_conn \<Rightarrow> idm_conn" where
  "idm_enter_enable_dm env ic =
     (let (ic, idm_status) =
        (if IDM_CONN_ISINI ic then (let ic = act ic A_INI_ENABLE_DM in (ic, it_ini_enable_datamover env ic))
         else (let ic = act ic A_TGT_ENABLE_DM in (ic, it_tgt_enable_datamover env ic)))
      in idm_conn_event ic (if idm_status = IDM_STATUS_SUCCESS then CE_ENABLE_DM_SUCCESS else CE_ENABLE_DM_FAIL) 0)"

definition idm_enter_state :: "idm_env \<Rightarrow> idm_conn \<Rightarrow> idm_conn" where
  "idm_enter_state env ic =
     (case ic_state ic of
        CS_S1_FREE \<Rightarrow> act ic A_ASSERT
      | CS_S2_XPT_WAIT \<Rightarrow>
          (case idm_ini_conn_finish env ic of (ic, rc) \<Rightarrow>
             idm_conn_event ic (if rc \<noteq> IDM_STATUS_SUCCESS then CE_CONNECT_FAIL else CE_CONNECT_SUCCESS) 0)
      | CS_S3_XPT_UP \<Rightarrow>
          (case idm_tgt_conn_finish env ic of (ic, rc) \<Rightarrow>
             timeout (if rc \<noteq> IDM_STATUS_SUCCESS
                      then idm_conn_event ic (if rc = IDM_STATUS_REJECT then CE_CONNECT_REJECT else CE_CONNECT_FAIL) 0
                      else ic) T_LOGIN)
      | CS_S4_IN_LOGIN \<Rightarrow>
          if IDM_CONN_ISINI ic
          then act ((notify env ic CN_READY_FOR_LOGIN 0)
                 \<lparr>ic_state_flags := ic_state_flags ic OR CF_LOGIN_READY\<rparr>) A_CV_SIGNAL
          else ic
      | CS_S5_LOGGED_IN \<Rightarrow> idm_enter_logged_in env ic
      | CS_S6_IN_LOGOUT \<Rightarrow> ic
      | CS_S7_LOGOUT_REQ \<Rightarrow> if IDM_CONN_ISTGT ic then timeout ic T_LOGOUT else ic
      | CS_S8_CLEANUP \<Rightarrow>
          timeout (act (conn_disconnect ic) (A_TASK_ABORT AT_INTERNAL_SUSPEND)) T_CLEANUP
      | CS_S10_IN_CLEANUP \<Rightarrow> ic
      | CS_S9A_REJECTED \<Rightarrow> idm_refcnt_async_wait_ref ic UNREF_conn_reject_unref
      | CS_S9B_WAIT_SND_DONE \<Rightarrow> ic
      | CS_S9_INIT_ERROR \<Rightarrow> idm_enter_init_error env ic
      | CS_S11_COMPLETE \<Rightarrow> idm_enter_complete env ic
      | CS_S12_ENABLE_DM \<Rightarrow> idm_enter_enable_dm env ic
      | _ \<Rightarrow> act ic A_ASSERT)"

definition idm_update_state :: "idm_env \<Rightarrow> idm_conn \<Rightarrow> idm_conn_state \<Rightarrow> idm_conn" where
  "idm_update_state env ic new_state =
     (let ic = assert (new_state \<noteq> CS_S0_UNDEFINED) ic;
          ic = assert (new_state \<noteq> CS_MAX_STATE) ic;
          new_state = (if new_state \<noteq> CS_MAX_STATE then new_state else CS_S0_UNDEFINED);
          ic = ic\<lparr>ic_state_audit :=
                  idm_sm_audit_state_change (ic_state_audit ic) SAS_IDM_CONN (ic_state ic) new_state\<rparr>;
          ic = ic\<lparr>ic_last_state := ic_state ic, ic_state := new_state\<rparr>;
          ic = act ic A_CV_SIGNAL
      in idm_enter_state env ic)"

section \<open>The handlers\<close>

definition idm_state_s1_free :: "idm_env \<Rightarrow> idm_conn \<Rightarrow> idm_conn_event_ctx \<Rightarrow> idm_conn" where
  "idm_state_s1_free env ic ctx =
     (let e = iec_event ctx in
      if e = CE_CONNECT_REQ then idm_update_state env ic CS_S2_XPT_WAIT
      else if e = CE_CONNECT_ACCEPT then idm_update_state env ic CS_S3_XPT_UP
      else if e \<in> {CE_TX_PROTOCOL_ERROR, CE_RX_PROTOCOL_ERROR}
      then idm_update_state env ic CS_S9_INIT_ERROR
      else act ic A_ASSERT)"

definition idm_state_s2_xpt_wait :: "idm_env \<Rightarrow> idm_conn \<Rightarrow> idm_conn_event_ctx \<Rightarrow> idm_conn" where
  "idm_state_s2_xpt_wait env ic ctx =
     (let e = iec_event ctx in
      if e = CE_CONNECT_SUCCESS then idm_update_state env ic CS_S4_IN_LOGIN
      else if e \<in> {CE_TRANSPORT_FAIL, CE_CONNECT_FAIL, CE_LOGOUT_OTHER_CONN_RCV,
          CE_TX_PROTOCOL_ERROR, CE_RX_PROTOCOL_ERROR}
      then idm_update_state env ic CS_S9_INIT_ERROR
      else act ic A_ASSERT)"

definition idm_state_s3_xpt_up :: "idm_env \<Rightarrow> idm_conn \<Rightarrow> idm_conn_event_ctx \<Rightarrow> idm_conn" where
  "idm_state_s3_xpt_up env ic ctx =
     (let e = iec_event ctx in
      if e = CE_LOGIN_RCV then idm_update_state env (idm_initial_login_actions ic ctx) CS_S4_IN_LOGIN
      else if e = CE_LOGIN_TIMEOUT
      then idm_update_state env (notify env ic CN_LOGIN_FAIL 0) CS_S9_INIT_ERROR
      else if e = CE_CONNECT_REJECT then idm_update_state env (untimeout ic) CS_S9A_REJECTED
      else if e \<in> {CE_CONNECT_FAIL, CE_TRANSPORT_FAIL, CE_LOGOUT_OTHER_CONN_SND}
      then idm_update_state env (notify env (untimeout ic) CN_LOGIN_FAIL 0) CS_S9_INIT_ERROR
      else if e \<in> {CE_TX_PROTOCOL_ERROR, CE_RX_PROTOCOL_ERROR} then ic
      else act ic A_ASSERT)"

text \<open>The handlers of S4 and S6 may forward the PDU themselves and say so in the context.\<close>

definition idm_state_s4_in_login ::
  "idm_env \<Rightarrow> idm_conn \<Rightarrow> idm_conn_event_ctx \<Rightarrow> idm_conn \<times> idm_conn_event_ctx" where
  "idm_state_s4_in_login env ic ctx =
     (let e = iec_event ctx in
      if e \<in> {CE_LOGIN_SUCCESS_RCV, CE_LOGIN_SUCCESS_SND} then
        (let ic = assert (ic_client_callback ic = CB_NULL) ic;
             ic = idm_login_success_actions (untimeout ic) ctx
         in (idm_update_state env ic (if ic_rdma_extensions ic then CS_S12_ENABLE_DM else CS_S5_LOGGED_IN), ctx))
      else if e = CE_LOGIN_TIMEOUT
      then (idm_update_state env (notify env ic CN_LOGIN_FAIL 0) CS_S9_INIT_ERROR, ctx)
      else if e = CE_LOGIN_FAIL_SND then
        (let ic = untimeout ic; pdu = iec_info ctx;
             ic = assert (ic_client_callback ic = CB_NULL) ic;
             ic = ic\<lparr>ic_client_callback := isp_callback (ic_pdus ic pdu)\<rparr>;
             ic = pdu_set_callback ic pdu CB_s9b_wait_snd_done
         in (idm_update_state env ic CS_S9B_WAIT_SND_DONE, ctx))
      else if e \<in> {CE_LOGIN_FAIL_RCV, CE_TRANSPORT_FAIL, CE_LOGOUT_OTHER_CONN_SND, CE_LOGOUT_OTHER_CONN_RCV} then
        (let (ic, ctx) =
           (if e = CE_LOGIN_FAIL_RCV then
              (let ic = assert (ic_client_callback ic = CB_NULL) ic
               in (idm_pdu_rx_forward ic (iec_info ctx), ctx\<lparr>iec_pdu_forwarded := True\<rparr>))
            else (ic, ctx))
         in (idm_update_state env (notify env (untimeout ic) CN_LOGIN_FAIL 0) CS_S9_INIT_ERROR, ctx))
      else if e = CE_LOGOUT_SESSION_SUCCESS
      then (idm_update_state env (notify env (untimeout (conn_disconnect ic)) CN_LOGIN_FAIL 0) CS_S11_COMPLETE, ctx)
      else if e = CE_LOGIN_SND then
        (let ic = assert (ic_client_callback ic = CB_NULL) ic
         in (if ic_state_flags ic AND CF_INITIAL_LOGIN = 0 then idm_initial_login_actions ic ctx else ic, ctx))
      else if e \<in> {CE_MISC_TX, CE_MISC_RX, CE_LOGIN_RCV, CE_TX_PROTOCOL_ERROR, CE_RX_PROTOCOL_ERROR}
      then (ic, ctx)
      else (act ic A_ASSERT, ctx))"

definition idm_state_s5_logged_in :: "idm_env \<Rightarrow> idm_conn \<Rightarrow> idm_conn_event_ctx \<Rightarrow> idm_conn" where
  "idm_state_s5_logged_in env ic ctx =
     (let e = iec_event ctx in
      if e \<in> {CE_MISC_RX, CE_LOGOUT_THIS_CONN_RCV, CE_LOGOUT_THIS_CONN_SND, CE_LOGOUT_OTHER_CONN_RCV,
          CE_LOGOUT_OTHER_CONN_SND}
      then idm_update_state env (idm_ffp_disable env ic FD_CONN_LOGOUT) CS_S6_IN_LOGOUT
      else if e \<in> {CE_LOGOUT_SESSION_RCV, CE_LOGOUT_SESSION_SND}
      then idm_update_state env (idm_ffp_disable env ic FD_SESS_LOGOUT) CS_S6_IN_LOGOUT
      else if e = CE_LOGOUT_SESSION_SUCCESS
      then idm_update_state env (conn_disconnect (idm_ffp_disable env ic FD_SESS_LOGOUT)) CS_S11_COMPLETE
      else if e \<in> {CE_ASYNC_LOGOUT_RCV, CE_ASYNC_LOGOUT_SND} then idm_update_state env ic CS_S7_LOGOUT_REQ
      else if e \<in> {CE_TRANSPORT_FAIL, CE_ASYNC_DROP_CONN_RCV, CE_ASYNC_DROP_CONN_SND,
          CE_ASYNC_DROP_ALL_CONN_RCV, CE_ASYNC_DROP_ALL_CONN_SND}
      then idm_update_state env (idm_ffp_disable env ic FD_CONN_FAIL) CS_S8_CLEANUP
      else if e \<in> {CE_MISC_TX, CE_TX_PROTOCOL_ERROR, CE_RX_PROTOCOL_ERROR, CE_LOGIN_TIMEOUT} then ic
      else act ic A_ASSERT)"

text \<open>Giving a PDU its own callback back and completing it.\<close>

definition restore_callback :: "idm_conn \<Rightarrow> addr \<Rightarrow> idm_conn" where
  "restore_callback ic pdu =
     (let ic = (pdu_set_callback ic pdu (ic_client_callback ic))\<lparr>ic_client_callback := CB_NULL\<rparr>
      in idm_pdu_complete ic pdu (isp_status (ic_pdus ic pdu)))"

definition idm_state_s6_in_logout ::
  "idm_env \<Rightarrow> idm_conn \<Rightarrow> idm_conn_event_ctx \<Rightarrow> idm_conn \<times> idm_conn_event_ctx" where
  "idm_state_s6_in_logout env ic ctx =
     (let e = iec_event ctx; pdu = iec_info ctx in
      if e = CE_LOGOUT_SUCCESS_SND_DONE then
        (let ic = act (assert (IDM_CONN_ISTGT ic) ic) A_TGT_DISCONNECT
         in (idm_update_state env (restore_callback ic pdu) CS_S11_COMPLETE, ctx))
      else if e = CE_LOGOUT_FAIL_SND_DONE
      then (idm_update_state env (restore_callback ic pdu) CS_S8_CLEANUP, ctx)
      else if e \<in> {CE_LOGOUT_SUCCESS_SND, CE_LOGOUT_FAIL_SND} then
        (let ic = assert (ic_client_callback ic = CB_NULL) ic;
             ic = ic\<lparr>ic_client_callback := isp_callback (ic_pdus ic pdu)\<rparr>
         in (pdu_set_callback ic pdu (if e = CE_LOGOUT_SUCCESS_SND then CB_s6_logout_success_snd_done
               else CB_s6_logout_fail_snd_done), ctx))
      else if e \<in> {CE_LOGOUT_SUCCESS_RCV, CE_LOGOUT_SESSION_SUCCESS} then
        (let (ic, ctx) =
           (if e = CE_LOGOUT_SUCCESS_RCV
            then (idm_pdu_rx_forward ic pdu, ctx\<lparr>iec_pdu_forwarded := True\<rparr>) else (ic, ctx))
         in (idm_update_state env (conn_disconnect ic) CS_S11_COMPLETE, ctx))
      else if e = CE_ASYNC_LOGOUT_RCV then (ic, ctx)
      else if e \<in> {CE_TRANSPORT_FAIL, CE_ASYNC_DROP_CONN_RCV, CE_ASYNC_DROP_CONN_SND,
          CE_ASYNC_DROP_ALL_CONN_RCV, CE_ASYNC_DROP_ALL_CONN_SND, CE_LOGOUT_FAIL_RCV}
      then (idm_update_state env ic CS_S8_CLEANUP, ctx)
      else if e \<in> {CE_TX_PROTOCOL_ERROR, CE_RX_PROTOCOL_ERROR, CE_MISC_TX, CE_MISC_RX, CE_LOGIN_TIMEOUT}
      then (ic, ctx)
      else (act ic A_ASSERT, ctx))"

definition idm_state_s7_logout_req :: "idm_env \<Rightarrow> idm_conn \<Rightarrow> idm_conn_event_ctx \<Rightarrow> idm_conn" where
  "idm_state_s7_logout_req env ic ctx =
     (let e = iec_event ctx;
          untimeout_tgt = (\<lambda>ic. if IDM_CONN_ISTGT ic then untimeout ic else ic) in
      if e \<in> {CE_LOGOUT_THIS_CONN_RCV, CE_LOGOUT_THIS_CONN_SND, CE_LOGOUT_OTHER_CONN_RCV,
          CE_LOGOUT_OTHER_CONN_SND}
      then idm_update_state env (idm_ffp_disable env (untimeout_tgt ic) FD_CONN_LOGOUT) CS_S6_IN_LOGOUT
      else if e \<in> {CE_LOGOUT_SESSION_RCV, CE_LOGOUT_SESSION_SND}
      then idm_update_state env (idm_ffp_disable env (untimeout_tgt ic) FD_SESS_LOGOUT) CS_S6_IN_LOGOUT
      else if e \<in> {CE_ASYNC_LOGOUT_RCV, CE_ASYNC_LOGOUT_SND} then ic
      else if e \<in> {CE_TRANSPORT_FAIL, CE_ASYNC_DROP_CONN_RCV, CE_ASYNC_DROP_CONN_SND,
          CE_ASYNC_DROP_ALL_CONN_RCV, CE_ASYNC_DROP_ALL_CONN_SND, CE_LOGOUT_TIMEOUT}
      then (let ic = (if e = CE_LOGOUT_TIMEOUT then ic else untimeout_tgt ic)
            in idm_update_state env (idm_ffp_disable env ic FD_CONN_FAIL) CS_S8_CLEANUP)
      else if e = CE_LOGOUT_SESSION_SUCCESS
      then idm_update_state env
        (conn_disconnect (idm_ffp_disable env (untimeout_tgt ic) FD_SESS_LOGOUT)) CS_S11_COMPLETE
      else if e \<in> {CE_TX_PROTOCOL_ERROR, CE_RX_PROTOCOL_ERROR, CE_MISC_TX, CE_MISC_RX, CE_LOGIN_TIMEOUT}
      then ic
      else act ic A_ASSERT)"

definition idm_state_s8_cleanup :: "idm_env \<Rightarrow> idm_conn \<Rightarrow> idm_conn_event_ctx \<Rightarrow> idm_conn" where
  "idm_state_s8_cleanup env ic ctx =
     (let e = iec_event ctx in
      if e \<in> {CE_LOGOUT_SUCCESS_RCV, CE_LOGOUT_SUCCESS_SND, CE_LOGOUT_SESSION_SUCCESS, CE_CLEANUP_TIMEOUT}
      then idm_update_state env (if e = CE_CLEANUP_TIMEOUT then ic else untimeout ic) CS_S11_COMPLETE
      else if e \<in> {CE_LOGOUT_OTHER_CONN_RCV, CE_LOGOUT_OTHER_CONN_SND}
      then idm_update_state env ic CS_S10_IN_CLEANUP
      else if e \<in> {CE_LOGOUT_SUCCESS_SND_DONE, CE_LOGOUT_FAIL_SND_DONE}
      then restore_callback ic (iec_info ctx)
      else if e \<in> {CE_LOGOUT_SESSION_RCV, CE_LOGOUT_SESSION_SND, CE_TX_PROTOCOL_ERROR,
          CE_RX_PROTOCOL_ERROR, CE_MISC_TX, CE_MISC_RX, CE_TRANSPORT_FAIL, CE_LOGIN_TIMEOUT, CE_LOGOUT_TIMEOUT}
      then ic
      else act ic A_ASSERT)"

definition idm_state_s9_init_error :: "idm_env \<Rightarrow> idm_conn \<Rightarrow> idm_conn_event_ctx \<Rightarrow> idm_conn" where
  "idm_state_s9_init_error env ic ctx = ic"

definition idm_state_s9a_rejected :: "idm_env \<Rightarrow> idm_conn \<Rightarrow> idm_conn_event_ctx \<Rightarrow> idm_conn" where
  "idm_state_s9a_rejected env ic ctx = ic"

definition idm_state_s9b_wait_snd_done :: "idm_env \<Rightarrow> idm_conn \<Rightarrow> idm_conn_event_ctx \<Rightarrow> idm_conn" where
  "idm_state_s9b_wait_snd_done env ic ctx =
     (if iec_event ctx = CE_LOGIN_FAIL_SND_DONE
      then idm_update_state env (restore_callback ic (iec_info ctx)) CS_S9_INIT_ERROR else ic)"

definition idm_state_s10_in_cleanup :: "idm_env \<Rightarrow> idm_conn \<Rightarrow> idm_conn_event_ctx \<Rightarrow> idm_conn" where
  "idm_state_s10_in_cleanup env ic ctx =
     (let e = iec_event ctx in
      if e \<in> {CE_LOGOUT_FAIL_RCV, CE_LOGOUT_FAIL_SND} then idm_update_state env ic CS_S8_CLEANUP
      else if e \<in> {CE_LOGOUT_SUCCESS_SND, CE_LOGOUT_SUCCESS_RCV, CE_LOGOUT_SESSION_SUCCESS, CE_CLEANUP_TIMEOUT}
      then idm_update_state env (if e = CE_CLEANUP_TIMEOUT then ic else untimeout ic) CS_S11_COMPLETE
      else if e \<in> {CE_LOGOUT_SUCCESS_SND_DONE, CE_LOGOUT_FAIL_SND_DONE}
      then restore_callback ic (iec_info ctx)
      else if e \<in> {CE_TX_PROTOCOL_ERROR, CE_RX_PROTOCOL_ERROR, CE_MISC_TX, CE_MISC_RX, CE_LOGIN_TIMEOUT,
          CE_LOGOUT_TIMEOUT}
      then ic
      else act ic A_ASSERT)"

definition idm_state_s11_complete :: "idm_env \<Rightarrow> idm_conn \<Rightarrow> idm_conn_event_ctx \<Rightarrow> idm_conn" where
  "idm_state_s11_complete env ic ctx =
     (if iec_event ctx \<in> {CE_LOGOUT_SUCCESS_SND_DONE, CE_LOGOUT_FAIL_SND_DONE}
      then restore_callback ic (iec_info ctx) else ic)"

definition idm_state_s12_enable_dm :: "idm_env \<Rightarrow> idm_conn \<Rightarrow> idm_conn_event_ctx \<Rightarrow> idm_conn" where
  "idm_state_s12_enable_dm env ic ctx =
     (let e = iec_event ctx in
      if e = CE_ENABLE_DM_SUCCESS then idm_update_state env ic CS_S5_LOGGED_IN
      else if e = CE_ENABLE_DM_FAIL then idm_update_state env ic CS_S9_INIT_ERROR
      else if e = CE_TRANSPORT_FAIL then ic
      else act ic A_ASSERT)"

section \<open>Validating PDUs\<close>

definition protocol_error :: "idm_conn_event_ctx \<Rightarrow> idm_pdu_event_action" where
  "protocol_error ctx =
     (if iec_pdu_event_type ctx = CT_TX_PDU then CA_TX_PROTOCOL_ERROR else CA_RX_PROTOCOL_ERROR)"

text \<open>
  The opcode against the role: \<open>Some\<close> action where the source jumps to \<open>validate_pdu_done\<close>.
\<close>

definition validate_pdu_role :: "idm_conn \<Rightarrow> idm_conn_event_ctx \<Rightarrow> addr \<Rightarrow> idm_pdu_event_action option" where
  "validate_pdu_role ic ctx pdu =
     (let op = opcode ic pdu in
      if op \<in> {ISCSI_OP_NOOP_OUT, ISCSI_OP_SCSI_CMD, ISCSI_OP_SCSI_TASK_MGT_MSG, ISCSI_OP_LOGIN_CMD,
          ISCSI_OP_TEXT_CMD, ISCSI_OP_SCSI_DATA, ISCSI_OP_LOGOUT_CMD, ISCSI_OP_SNACK_CMD} then
        (if IDM_CONN_ISINI ic \<and> iec_pdu_event_type ctx = CT_RX_PDU then Some CA_RX_PROTOCOL_ERROR
         else if IDM_CONN_ISTGT ic \<and> iec_pdu_event_type ctx = CT_TX_PDU then Some CA_TX_PROTOCOL_ERROR
         else None)
      else if op \<in> {ISCSI_OP_NOOP_IN, ISCSI_OP_SCSI_RSP, ISCSI_OP_SCSI_TASK_MGT_RSP, ISCSI_OP_LOGIN_RSP,
          ISCSI_OP_TEXT_RSP, ISCSI_OP_SCSI_DATA_RSP, ISCSI_OP_LOGOUT_RSP, ISCSI_OP_RTT_RSP,
          ISCSI_OP_ASYNC_EVENT, ISCSI_OP_REJECT_MSG} then
        (if IDM_CONN_ISTGT ic \<and> iec_pdu_event_type ctx = CT_RX_PDU then Some CA_RX_PROTOCOL_ERROR
         else if IDM_CONN_ISINI ic \<and> iec_pdu_event_type ctx = CT_TX_PDU then Some CA_TX_PROTOCOL_ERROR
         else None)
      else Some (protocol_error ctx))"

text \<open>
  The opcode against the state. Each group of cases of the outer \<open>switch\<close> is a function; where
  the source sets \<open>CA_DROP\<close> and leaves the inner \<open>switch\<close> with \<open>break\<close>, control falls through
  into the next group.
\<close>

definition validate_login :: "idm_conn \<Rightarrow> idm_conn_event_ctx \<Rightarrow> idm_pdu_event_action" where
  "validate_login ic ctx =
     (if ic_state ic \<in> {CS_S3_XPT_UP, CS_S4_IN_LOGIN} then CA_FORWARD else protocol_error ctx)"

definition validate_logout :: "idm_conn \<Rightarrow> idm_conn_event_ctx \<Rightarrow> idm_pdu_event_action" where
  "validate_logout ic ctx =
     (if ic_state ic \<in> {CS_S5_LOGGED_IN, CS_S6_IN_LOGOUT, CS_S7_LOGOUT_REQ} then CA_FORWARD
      else if ic_state ic \<in> {CS_S8_CLEANUP, CS_S10_IN_CLEANUP}
      then (let action = CA_DROP in validate_login ic ctx)
      else protocol_error ctx)"

definition validate_scsi :: "idm_conn \<Rightarrow> idm_conn_event_ctx \<Rightarrow> idm_pdu_event_action" where
  "validate_scsi ic ctx =
     (if ic_state ic \<in> {CS_S5_LOGGED_IN, CS_S6_IN_LOGOUT, CS_S7_LOGOUT_REQ} then CA_FORWARD
      else if ic_state ic \<in> {CS_S8_CLEANUP, CS_S10_IN_CLEANUP}
      then (let action = CA_DROP in validate_logout ic ctx)
      else protocol_error ctx)"

definition validate_noop :: "idm_conn \<Rightarrow> idm_conn_event_ctx \<Rightarrow> idm_pdu_event_action" where
  "validate_noop ic ctx =
     (if ic_state ic \<in> {CS_S4_IN_LOGIN, CS_S5_LOGGED_IN, CS_S6_IN_LOGOUT, CS_S7_LOGOUT_REQ} then CA_FORWARD
      else if ic_state ic \<in> {CS_S8_CLEANUP, CS_S10_IN_CLEANUP}
      then (let action = CA_DROP in validate_scsi ic ctx)
      else protocol_error ctx)"

definition idm_conn_sm_validate_pdu :: "idm_conn \<Rightarrow> idm_conn_event_ctx \<Rightarrow> addr \<Rightarrow> idm_pdu_event_action" where
  "idm_conn_sm_validate_pdu ic ctx pdu =
     (case validate_pdu_role ic ctx pdu of
        Some action \<Rightarrow> action
      | None \<Rightarrow>
          (let op = opcode ic pdu in
           if op \<in> {ISCSI_OP_NOOP_OUT, ISCSI_OP_NOOP_IN} then validate_noop ic ctx
           else if op \<in> {ISCSI_OP_SCSI_CMD, ISCSI_OP_SCSI_RSP, ISCSI_OP_SCSI_TASK_MGT_MSG,
               ISCSI_OP_SCSI_TASK_MGT_RSP, ISCSI_OP_SCSI_DATA, ISCSI_OP_SCSI_DATA_RSP, ISCSI_OP_RTT_RSP,
               ISCSI_OP_SNACK_CMD, ISCSI_OP_TEXT_CMD, ISCSI_OP_TEXT_RSP}
           then validate_scsi ic ctx
           else if op \<in> {ISCSI_OP_LOGOUT_CMD, ISCSI_OP_LOGOUT_RSP, ISCSI_OP_REJECT_MSG, ISCSI_OP_ASYNC_EVENT}
           then validate_logout ic ctx
           else if op \<in> {ISCSI_OP_LOGIN_CMD, ISCSI_OP_LOGIN_RSP} then validate_login ic ctx
           else protocol_error ctx))"

section \<open>Handling one event\<close>

definition idm_pdu_tx_protocol_error :: "idm_conn \<Rightarrow> addr \<Rightarrow> idm_conn" where
  "idm_pdu_tx_protocol_error ic pdu = idm_pdu_complete ic pdu IDM_STATUS_PROTOCOL_ERROR"

definition idm_pdu_rx_protocol_error :: "idm_conn \<Rightarrow> addr \<Rightarrow> idm_conn" where
  "idm_pdu_rx_protocol_error ic pdu = act ic (A_RX_ERROR pdu IDM_STATUS_PROTOCOL_ERROR)"

text \<open>The dispatch on the state.\<close>

definition idm_conn_state_handler ::
  "idm_env \<Rightarrow> idm_conn \<Rightarrow> idm_conn_event_ctx \<Rightarrow> idm_conn \<times> idm_conn_event_ctx" where
  "idm_conn_state_handler env ic ctx =
     (case ic_state ic of
        CS_S1_FREE \<Rightarrow> (idm_state_s1_free env ic ctx, ctx)
      | CS_S2_XPT_WAIT \<Rightarrow> (idm_state_s2_xpt_wait env ic ctx, ctx)
      | CS_S3_XPT_UP \<Rightarrow> (idm_state_s3_xpt_up env ic ctx, ctx)
      | CS_S4_IN_LOGIN \<Rightarrow> idm_state_s4_in_login env ic ctx
      | CS_S5_LOGGED_IN \<Rightarrow> (idm_state_s5_logged_in env ic ctx, ctx)
      | CS_S6_IN_LOGOUT \<Rightarrow> idm_state_s6_in_logout env ic ctx
      | CS_S7_LOGOUT_REQ \<Rightarrow> (idm_state_s7_logout_req env ic ctx, ctx)
      | CS_S8_CLEANUP \<Rightarrow> (idm_state_s8_cleanup env ic ctx, ctx)
      | CS_S9A_REJECTED \<Rightarrow> (idm_state_s9a_rejected env ic ctx, ctx)
      | CS_S9B_WAIT_SND_DONE \<Rightarrow> (idm_state_s9b_wait_snd_done env ic ctx, ctx)
      | CS_S9_INIT_ERROR \<Rightarrow> (idm_state_s9_init_error env ic ctx, ctx)
      | CS_S10_IN_CLEANUP \<Rightarrow> (idm_state_s10_in_cleanup env ic ctx, ctx)
      | CS_S11_COMPLETE \<Rightarrow> (idm_state_s11_complete env ic ctx, ctx)
      | CS_S12_ENABLE_DM \<Rightarrow> (idm_state_s12_enable_dm env ic ctx, ctx)
      | _ \<Rightarrow> (act ic A_ASSERT, ctx))"

text \<open>What happens to the PDU of an event after the state machine has been updated.\<close>

definition idm_pdu_dispose ::
  "idm_conn \<Rightarrow> idm_conn_event_ctx \<Rightarrow> idm_pdu_event_action \<Rightarrow> addr \<Rightarrow> idm_conn" where
  "idm_pdu_dispose ic ctx action pdu =
     (case action of
        CA_TX_PROTOCOL_ERROR \<Rightarrow> idm_pdu_tx_protocol_error ic pdu
      | CA_RX_PROTOCOL_ERROR \<Rightarrow> idm_pdu_rx_protocol_error ic pdu
      | CA_FORWARD \<Rightarrow>
          if \<not> iec_pdu_forwarded ctx
          then (if iec_pdu_event_type ctx = CT_RX_PDU then idm_pdu_rx_forward ic pdu else idm_pdu_tx_forward ic pdu)
          else ic
      | CA_DROP \<Rightarrow> act ic A_ASSERT)"

text \<open>
  The first half of the handler: the assertions, and the validation of a PDU that turns the
  event into a protocol error. The action is only used for PDU events.
\<close>

definition idm_conn_validate_event ::
  "idm_conn \<Rightarrow> idm_conn_event_ctx \<Rightarrow> idm_conn \<times> idm_conn_event_ctx \<times> idm_pdu_event_action" where
  "idm_conn_validate_event ic ctx =
     (let pdu = iec_info ctx;
          ic = assert (iec_event ctx \<noteq> CE_UNDEFINED) ic;
          ic = assert (iec_event ctx \<noteq> CE_MAX_EVENT) ic;
          ic = assert (ic_state ic \<noteq> CS_S0_UNDEFINED) ic;
          ic = assert (ic_state ic \<noteq> CS_MAX_STATE) ic;
          ctx = ctx\<lparr>iec_pdu_forwarded := False\<rparr>
      in if iec_pdu_event_type ctx \<noteq> CT_NONE then
           (let ic = assert (pdu \<noteq> 0) ic;
                action = idm_conn_sm_validate_pdu ic ctx pdu
            in case action of
                 CA_TX_PROTOCOL_ERROR \<Rightarrow> (ic, ctx\<lparr>iec_event := CE_TX_PROTOCOL_ERROR\<rparr>, action)
               | CA_RX_PROTOCOL_ERROR \<Rightarrow> (ic, ctx\<lparr>iec_event := CE_RX_PROTOCOL_ERROR\<rparr>, action)
               | CA_FORWARD \<Rightarrow> (ic, ctx, action)
               | CA_DROP \<Rightarrow> (idm_pdu_complete ic pdu IDM_STATUS_FAIL, ctx, action))
         else (ic, ctx, CA_FORWARD))"

definition idm_conn_event_handler :: "idm_env \<Rightarrow> idm_conn \<Rightarrow> idm_conn_event_ctx \<Rightarrow> idm_conn" where
  "idm_conn_event_handler env ic event_ctx =
     (let (ic, ctx, action) = idm_conn_validate_event ic event_ctx;
          (ic, ctx) = idm_conn_state_handler env ic ctx;
          pdu = iec_info event_ctx;
          ic = (if iec_pdu_event_type event_ctx \<noteq> CT_NONE then idm_pdu_dispose ic ctx action pdu else ic);
          ic = (if iec_pdu_event_type event_ctx \<noteq> CT_NONE
                then ic\<lparr>ic_pdu_events := ic_pdu_events ic - 1\<rparr> else ic)
      in idm_conn_rele ic)"

text \<open>The tasks that run once the last reference is gone.\<close>

definition idm_conn_unref :: "idm_env \<Rightarrow> idm_conn \<Rightarrow> idm_conn" where
  "idm_conn_unref env ic =
     (let ic' = notify env ic CN_CONNECT_DESTROY 0
      in if IDM_CONN_ISTGT ic then act ic' A_SVC_CONN_DESTROY else ic')"

definition idm_conn_reject_unref :: "idm_conn \<Rightarrow> idm_conn" where
  "idm_conn_reject_unref ic = act (assert (IDM_CONN_ISTGT ic) ic) A_SVC_CONN_DESTROY"

text \<open>
  \<open>idm_conn_sm_init\<close> when the task queue could be created; the connection comes zeroed from
  its creator, who has set its type, its reference count and the internal identifier.
\<close>

definition idm_conn_sm_init :: "bool \<Rightarrow> idm_conn \<Rightarrow> idm_status \<times> idm_conn" where
  "idm_conn_sm_init taskq_created ic =
     (if \<not> taskq_created then (IDM_STATUS_FAIL, ic)
      else (IDM_STATUS_SUCCESS,
            ic\<lparr>ic_state_taskq := [], ic_state_audit := idm_sm_audit_init,
               ic_state := CS_S1_FREE, ic_last_state := CS_S1_FREE\<rparr>))"

end
