(* ===== verification/Machine.thy ===== *)
theory Machine
  imports Prelude
begin

text \<open>
  State machines as transition systems: what a component that reacts to events promises
  (\<open>machine_inv\<close>: an invariant that every step keeps) and what a more abstract machine it
  follows is (\<open>machine_refines\<close>). The state machines of the development interpret these
  locales with their own step relations.
\<close>

locale machine =
  fixes init :: "'s \<Rightarrow> bool" and step :: "'s \<Rightarrow> 's \<Rightarrow> bool"
begin

definition reachable :: "'s \<Rightarrow> bool" where
  "reachable s \<longleftrightarrow> (\<exists>s0. init s0 \<and> step\<^sup>*\<^sup>* s0 s)"

lemma reachable_init: "init s \<Longrightarrow> reachable s"
  by (auto simp: reachable_def)

lemma reachable_step: "reachable s \<Longrightarrow> step s t \<Longrightarrow> reachable t"
  by (meson reachable_def rtranclp.rtrancl_into_rtrancl)

lemma reachable_induct:
  assumes "reachable s" and "\<And>s. init s \<Longrightarrow> P s" and "\<And>s t. reachable s \<Longrightarrow> P s \<Longrightarrow> step s t \<Longrightarrow> P t"
  shows "P s"
proof -
  obtain s0 where s0: "init s0" "step\<^sup>*\<^sup>* s0 s" using assms(1) by (auto simp: reachable_def)
  from s0(2) have "reachable s \<and> P s"
    by (induction rule: rtranclp_induct) (use s0(1) assms(2,3) reachable_init reachable_step in blast)+
  then show ?thesis ..
qed

end

locale machine_inv = machine init step
  for init :: "'s \<Rightarrow> bool" and step :: "'s \<Rightarrow> 's \<Rightarrow> bool" +
  fixes inv :: "'s \<Rightarrow> bool"
  assumes init_inv: "init s \<Longrightarrow> inv s"
    and step_inv: "inv s \<Longrightarrow> step s t \<Longrightarrow> inv t"
begin

lemma reachable_inv:
  assumes "reachable s"
  shows "inv s"
  using assms by (rule reachable_induct) (auto intro: init_inv step_inv)

lemma steps_inv:
  assumes "inv s" and "step\<^sup>*\<^sup>* s t"
  shows "inv t"
  using assms(2,1) by (induction rule: rtranclp_induct) (auto intro: step_inv)

end

text \<open>A machine whose steps are, seen through \<open>abs\<close>, steps of another machine or no step.\<close>

locale machine_refines = machine_inv init step inv
  for init :: "'s \<Rightarrow> bool" and step :: "'s \<Rightarrow> 's \<Rightarrow> bool" and inv :: "'s \<Rightarrow> bool" +
  fixes abs :: "'s \<Rightarrow> 'a" and astep :: "'a \<Rightarrow> 'a \<Rightarrow> bool"
  assumes step_abs: "inv s \<Longrightarrow> step s t \<Longrightarrow> abs t = abs s \<or> astep (abs s) (abs t)"
begin

lemma steps_abs:
  assumes "inv s" and "step\<^sup>*\<^sup>* s t"
  shows "astep\<^sup>*\<^sup>* (abs s) (abs t)"
  using assms(2)
proof (induction rule: rtranclp_induct)
  case (step t u)
  then have "abs u = abs t \<or> astep (abs t) (abs u)"
    using steps_inv [OF assms(1)] step_abs by blast
  with step.IH show ?case by (metis rtranclp.rtrancl_into_rtrancl)
qed simp

end

end
