(* ===== verification/Idm_Conn_Inv.thy ===== *)
theory Idm_Conn_Inv
  imports Idm_Conn_SM Machine
begin

text \<open>
  Reachability and invariants of the connection state machine: full feature phase only while
  logged in, PDU event accounting, references and the single unreference task, the legal
  state changes, timers, and the disposal of PDUs.
\<close>

section \<open>Accounting invariant\<close>

fun is_unref :: "idm_action \<Rightarrow> bool" where
  "is_unref (A_DISPATCH_UNREF cb) = True"
| "is_unref _ = False"

definition unrefs :: "idm_conn \<Rightarrow> nat" where
  "unrefs ic = length (filter is_unref (ic_trace ic))"

definition pdu_ctxs :: "idm_conn_event_ctx list \<Rightarrow> int" where
  "pdu_ctxs q = int (length (filter (\<lambda>c. iec_pdu_event_type c \<noteq> CT_NONE) q))"

lemma pdu_ctxs_simps [simp]:
  "pdu_ctxs [] = 0"
  "pdu_ctxs (c # q) = (if iec_pdu_event_type c \<noteq> CT_NONE then 1 else 0) + pdu_ctxs q"
  "pdu_ctxs (q @ r) = pdu_ctxs q + pdu_ctxs r"
  by (simp_all add: pdu_ctxs_def)

text \<open>The states only a successful login leads to (S11 can also be reached from S4).\<close>

definition login_done :: "idm_conn_state \<Rightarrow> bool" where
  "login_done s \<longleftrightarrow> s \<in> {CS_S5_LOGGED_IN, CS_S6_IN_LOGOUT, CS_S7_LOGOUT_REQ, CS_S8_CLEANUP,
     CS_S10_IN_CLEANUP, CS_S12_ENABLE_DM}"

text \<open>
  The part that holds at every point of a handler, \<open>k\<close> being the references the running
  handler owns and \<open>p\<close> the PDU event it has not counted off yet.
\<close>

definition conn_base :: "int \<Rightarrow> int \<Rightarrow> idm_conn \<Rightarrow> bool" where
  "conn_base k p ic \<longleftrightarrow>
     ic_pdu_events ic = p + pdu_ctxs (ic_state_taskq ic) \<and>
     int (length (ic_state_taskq ic)) + k \<le> ir_refcnt (ic_refcnt ic) \<and>
     ic_state ic \<notin> {CS_S0_UNDEFINED, CS_MAX_STATE} \<and>
     (ic_ffp ic \<longrightarrow> ic_state ic \<in> {CS_S5_LOGGED_IN, CS_S7_LOGOUT_REQ}) \<and>
     (login_done (ic_state ic) \<longrightarrow> ic_login_info_valid ic)"

definition conn_ok :: "int \<Rightarrow> int \<Rightarrow> idm_conn \<Rightarrow> bool" where
  "conn_ok k p ic \<longleftrightarrow>
     conn_base k p ic \<and>
     ir_waiting (ic_refcnt ic) = (if terminal (ic_state ic) then REF_WAIT_ASYNC else REF_NOWAIT) \<and>
     unrefs ic = (if terminal (ic_state ic) \<and> ir_refcnt (ic_refcnt ic) = 0 then 1 else 0)"

lemma unrefs_simps [simp]:
  "unrefs (act ic a) = unrefs ic + (if is_unref a then 1 else 0)"
  "unrefs (ic\<lparr>ic_state := x1\<rparr>) = unrefs ic"
  "unrefs (ic\<lparr>ic_last_state := x2\<rparr>) = unrefs ic"
  "unrefs (ic\<lparr>ic_state_audit := x3\<rparr>) = unrefs ic"
  "unrefs (ic\<lparr>ic_state_flags := x4\<rparr>) = unrefs ic"
  "unrefs (ic\<lparr>ic_state_timeout := x5\<rparr>) = unrefs ic"
  "unrefs (ic\<lparr>ic_state_taskq := x6\<rparr>) = unrefs ic"
  "unrefs (ic\<lparr>ic_pdu_events := x7\<rparr>) = unrefs ic"
  "unrefs (ic\<lparr>ic_login_info_valid := x8\<rparr>) = unrefs ic"
  "unrefs (ic\<lparr>ic_login_cid := x9\<rparr>) = unrefs ic"
  "unrefs (ic\<lparr>ic_conn_sm_status := x10\<rparr>) = unrefs ic"
  "unrefs (ic\<lparr>ic_ffp := x11\<rparr>) = unrefs ic"
  "unrefs (ic\<lparr>ic_client_callback := x12\<rparr>) = unrefs ic"
  "unrefs (ic\<lparr>ic_refcnt := x13\<rparr>) = unrefs ic"
  "unrefs (ic\<lparr>ic_pdus := x14\<rparr>) = unrefs ic"
  "unrefs (ic\<lparr>ic_timers := x15\<rparr>) = unrefs ic"
  "unrefs (ic\<lparr>ic_next_timer := x16\<rparr>) = unrefs ic"
  by (simp_all add: unrefs_def act_def)

text \<open>Primitive effects that leave the invariant's fields alone.\<close>

definition quiet :: "idm_conn \<Rightarrow> idm_conn \<Rightarrow> bool" where
  "quiet ic ic' \<longleftrightarrow>
     ic_state ic' = ic_state ic \<and> ic_last_state ic' = ic_last_state ic \<and> ic_ffp ic' = ic_ffp ic \<and>
     ic_pdu_events ic' = ic_pdu_events ic \<and> ic_state_taskq ic' = ic_state_taskq ic \<and>
     ic_refcnt ic' = ic_refcnt ic \<and> unrefs ic' = unrefs ic \<and> ic_conn_type ic' = ic_conn_type ic \<and>
     ic_rdma_extensions ic' = ic_rdma_extensions ic \<and> ic_login_info_valid ic' = ic_login_info_valid ic"

lemma quiet_trans: "quiet a b \<Longrightarrow> quiet b c \<Longrightarrow> quiet a c"
  by (simp add: quiet_def)

lemma quiet_refl [simp]: "quiet ic ic"
  by (simp add: quiet_def)

lemma conn_ok_quiet: "quiet ic ic' \<Longrightarrow> conn_ok k p ic' = conn_ok k p ic"
  by (simp add: quiet_def conn_ok_def conn_base_def)

lemma conn_base_quiet: "quiet ic ic' \<Longrightarrow> conn_base k p ic' = conn_base k p ic"
  by (simp add: quiet_def conn_base_def)

lemma act_fields [simp]:
  "ic_state (act ic a) = ic_state ic" "ic_last_state (act ic a) = ic_last_state ic"
  "ic_ffp (act ic a) = ic_ffp ic" "ic_pdu_events (act ic a) = ic_pdu_events ic"
  "ic_state_taskq (act ic a) = ic_state_taskq ic" "ic_refcnt (act ic a) = ic_refcnt ic"
  "ic_conn_type (act ic a) = ic_conn_type ic" "ic_rdma_extensions (act ic a) = ic_rdma_extensions ic"
  "ic_login_info_valid (act ic a) = ic_login_info_valid ic"
  by (simp_all add: act_def)

lemma quiet_act: "\<not> is_unref a \<Longrightarrow> quiet ic (act ic a)"
  by (simp add: quiet_def)

lemma quiet_assert: "quiet ic (assert c ic)"
  by (simp add: assert_def quiet_act)

lemma quiet_notify: "quiet ic (notify env ic cn d)"
  by (simp add: idm_notify_client_def Let_def quiet_act)

lemma quiet_updates:
  "quiet ic (pdu_set_status ic pdu st)"
  "quiet ic (pdu_set_callback ic pdu cb)"
  "quiet ic (timeout ic t)"
  "quiet ic (untimeout ic)"
  "quiet ic (idm_conn_audit ic e i)"
  by (simp_all add: quiet_def pdu_set_status_def pdu_set_callback_def timeout_def untimeout_def
      idm_conn_audit_def)

lemma quiet_disconnect: "quiet ic (conn_disconnect ic)"
  by (simp add: conn_disconnect_def quiet_act)

lemma quiet_login: "quiet ic (idm_initial_login_actions ic ctx)"
  using quiet_assert by (auto simp: quiet_def idm_initial_login_actions_def Let_def)

lemma quiet_rx_forward_ffp: "quiet ic (fst (idm_pdu_rx_forward_ffp ic pdu))"
  by (simp add: idm_pdu_rx_forward_ffp_def Let_def quiet_act)

lemma quiet_forward: "quiet ic (idm_pdu_rx_forward ic pdu)" "quiet ic (idm_pdu_tx_forward ic pdu)"
  using quiet_rx_forward_ffp [of ic pdu]
  by (auto simp: idm_pdu_rx_forward_def idm_pdu_tx_forward_def quiet_act split: prod.splits
      intro: quiet_trans)

lemmas quiet_fields [simp] =
  quiet_assert [unfolded quiet_def] quiet_notify [unfolded quiet_def]
  quiet_updates [unfolded quiet_def] quiet_disconnect [unfolded quiet_def]
  quiet_login [unfolded quiet_def] quiet_forward [unfolded quiet_def]

lemmas conn_ok_prims [simp] =
  quiet_act [THEN conn_ok_quiet] quiet_assert [THEN conn_ok_quiet] quiet_notify [THEN conn_ok_quiet]
  quiet_updates [THEN conn_ok_quiet] quiet_disconnect [THEN conn_ok_quiet]
  quiet_login [THEN conn_ok_quiet] quiet_forward [THEN conn_ok_quiet]

lemma login_success_ok [simp]:
  "conn_ok k p ic \<Longrightarrow> conn_ok k p (idm_login_success_actions ic ctx)"
  "ic_login_info_valid (idm_login_success_actions ic ctx)"
  "ic_state (idm_login_success_actions ic ctx) = ic_state ic"
  "ic_ffp (idm_login_success_actions ic ctx) = ic_ffp ic"
  "ic_rdma_extensions (idm_login_success_actions ic ctx) = ic_rdma_extensions ic"
  by (simp_all add: idm_login_success_actions_def conn_ok_def conn_base_def)

text \<open>Posting an event and completing a PDU.\<close>

lemma conn_ok_dispatch:
  assumes "conn_ok k p ic" and "\<not> terminal (ic_state ic)"
  shows "conn_ok k (p + (if t = CT_NONE then 0 else -1)) (idm_conn_dispatch ic e i t)"
  using assms
  by (auto simp: conn_ok_def conn_base_def idm_conn_dispatch_def idm_conn_hold_def Let_def assert_def)

lemma conn_ok_event: "conn_ok k p ic \<Longrightarrow> conn_ok k p (idm_conn_event ic e i)"
  using conn_ok_dispatch [of k p "idm_conn_audit ic e i" CT_NONE e i]
  by (simp add: idm_conn_event_def Let_def)

lemma conn_ok_complete: "conn_ok k p ic \<Longrightarrow> conn_ok k p (idm_pdu_complete ic pdu st)"
  by (auto simp: idm_pdu_complete_def idm_state_s9b_wait_snd_done_cb_def
      idm_state_s6_in_logout_success_snd_done_def idm_state_s6_in_logout_fail_snd_done_def
      intro: conn_ok_event split: idm_pdu_cb.splits)

lemma idm_conn_event_fields [simp]:
  "ic_state (idm_conn_event ic e i) = ic_state ic"
  "ic_last_state (idm_conn_event ic e i) = ic_last_state ic"
  "ic_ffp (idm_conn_event ic e i) = ic_ffp ic"
  "ic_conn_type (idm_conn_event ic e i) = ic_conn_type ic"
  by (simp_all add: idm_conn_event_def idm_conn_dispatch_def idm_conn_hold_def Let_def assert_def)

lemma idm_pdu_complete_fields [simp]:
  "ic_state (idm_pdu_complete ic pdu st) = ic_state ic"
  "ic_last_state (idm_pdu_complete ic pdu st) = ic_last_state ic"
  "ic_ffp (idm_pdu_complete ic pdu st) = ic_ffp ic"
  "ic_conn_type (idm_pdu_complete ic pdu st) = ic_conn_type ic"
  by (simp_all add: idm_pdu_complete_def idm_state_s9b_wait_snd_done_cb_def
      idm_state_s6_in_logout_success_snd_done_def idm_state_s6_in_logout_fail_snd_done_def
      split: idm_pdu_cb.split)

lemma restore_callback_fields [simp]:
  "ic_state (restore_callback ic pdu) = ic_state ic"
  "ic_ffp (restore_callback ic pdu) = ic_ffp ic"
  "ic_conn_type (restore_callback ic pdu) = ic_conn_type ic"
  by (simp_all add: restore_callback_def Let_def)

lemma conn_ok_callback [simp]: "conn_ok k p (ic\<lparr>ic_client_callback := cb\<rparr>) = conn_ok k p ic"
  by (simp add: conn_ok_def conn_base_def)

lemma conn_ok_flags [simp]: "conn_ok k p (ic\<lparr>ic_state_flags := f\<rparr>) = conn_ok k p ic"
  by (simp add: conn_ok_def conn_base_def)

lemma conn_ok_timers [simp]: "conn_ok k p (ic\<lparr>ic_timers := ts\<rparr>) = conn_ok k p ic"
  by (simp add: conn_ok_def conn_base_def)

lemma conn_ok_restore: "conn_ok k p ic \<Longrightarrow> conn_ok k p (restore_callback ic pdu)"
  by (simp add: restore_callback_def Let_def conn_ok_complete)

lemma ffp_disable_fields [simp]:
  "ic_state (idm_ffp_disable env ic d) = ic_state ic"
  "ic_conn_type (idm_ffp_disable env ic d) = ic_conn_type ic"
  "\<not> ic_ffp (idm_ffp_disable env ic d)"
  by (simp_all add: idm_ffp_disable_def)

lemma conn_ok_ffp_disable: "conn_ok k p ic \<Longrightarrow> conn_ok k p (idm_ffp_disable env ic d)"
  by (simp add: idm_ffp_disable_def) (simp add: conn_ok_def conn_base_def)

text \<open>Entering a state. The terminal states start the wait for the last reference.\<close>

lemma idm_enter_fields [simp]:
  "ic_state (idm_refcnt_async_wait_ref ic cb) = ic_state ic"
  "ic_ffp (idm_refcnt_async_wait_ref ic cb) = ic_ffp ic"
  "ic_state (idm_enter_complete env ic) = ic_state ic"
  "ic_ffp (idm_enter_complete env ic) = ic_ffp ic"
  "ic_state (idm_enter_init_error env ic) = ic_state ic"
  "ic_ffp (idm_enter_init_error env ic) = ic_ffp ic"
  by (simp_all add: idm_refcnt_async_wait_ref_def idm_enter_complete_def idm_enter_init_error_def Let_def)

lemma async_wait_ok:
  assumes "conn_base k p ic" and "terminal (ic_state ic)" and "k > 0" and "unrefs ic = 0"
  shows "conn_ok k p (idm_refcnt_async_wait_ref ic cb)"
  using assms by (auto simp: conn_ok_def conn_base_def idm_refcnt_async_wait_ref_def Let_def)

lemma enter_complete_ok:
  assumes "conn_base k p ic" and "terminal (ic_state ic)" and "k > 0" and "unrefs ic = 0"
  shows "conn_ok k p (idm_enter_complete env ic)"
  unfolding idm_enter_complete_def Let_def
  by (rule async_wait_ok) (use assms in \<open>auto simp: conn_base_def\<close>)

lemma enter_init_error_ok:
  assumes "conn_base k p ic" and "terminal (ic_state ic)" and "k > 0" and "unrefs ic = 0"
  shows "conn_ok k p (idm_enter_init_error env ic)"
  unfolding idm_enter_init_error_def Let_def
  by (rule enter_complete_ok) (use assms in \<open>auto simp: conn_base_def\<close>)

lemma enter_logged_in_ok:
  assumes "conn_ok k p ic" and "ic_state ic = CS_S5_LOGGED_IN"
  shows "conn_ok k p (idm_enter_logged_in env ic)"
proof -
  have "conn_ok k p (fst (idm_ffp_enable env (assert (\<not> ic_ffp ic) ic)))"
    using assms
    by (simp add: idm_ffp_enable_def idm_notify_client_def Let_def split: prod.splits)
      (simp add: conn_ok_def conn_base_def terminal_def)
  then show ?thesis
    by (auto simp: idm_enter_logged_in_def Let_def split: prod.splits intro: conn_ok_event)
qed

lemma enter_state_ok:
  assumes "conn_ok k p ic" and "\<not> terminal (ic_state ic)" and "ic_state ic \<noteq> CS_S1_FREE"
  shows "conn_ok k p (idm_enter_state env ic)"
  using assms
  by (cases "ic_state ic")
    (auto simp: idm_enter_state_def terminal_def enter_logged_in_ok idm_enter_enable_dm_def
      idm_ini_conn_finish_def idm_tgt_conn_finish_def idm_notify_client_def Let_def conn_ok_event)

text \<open>The connection as \<open>idm_update_state\<close> leaves it before the actions of the new state.\<close>

definition set_state :: "idm_conn \<Rightarrow> idm_conn_state \<Rightarrow> idm_conn" where
  "set_state ic s =
     act (ic\<lparr>ic_state_audit := idm_sm_audit_state_change (ic_state_audit ic) SAS_IDM_CONN (ic_state ic) s,
             ic_last_state := ic_state ic, ic_state := s\<rparr>) A_CV_SIGNAL"

lemma update_state_set_state:
  "s \<notin> {CS_S0_UNDEFINED, CS_MAX_STATE} \<Longrightarrow> idm_update_state env ic s = idm_enter_state env (set_state ic s)"
  by (simp add: idm_update_state_def set_state_def assert_def Let_def)

lemma update_state_ok:
  assumes ok: "conn_ok k p ic" and src: "\<not> terminal (ic_state ic)" and k: "k > 0"
    and s: "s \<notin> {CS_S0_UNDEFINED, CS_S1_FREE, CS_MAX_STATE}" and ffp: "ic_ffp ic \<Longrightarrow> s = CS_S7_LOGOUT_REQ"
    and login: "login_done s \<Longrightarrow> login_done (ic_state ic) \<or> ic_login_info_valid ic"
  shows "conn_ok k p (idm_update_state env ic s)"
proof -
  have base: "conn_base k p (set_state ic s)" and un: "unrefs (set_state ic s) = 0"
    and st: "ic_state (set_state ic s) = s"
    using ok src s ffp login by (auto simp: conn_ok_def conn_base_def set_state_def)
  have "conn_ok k p (idm_enter_state env (set_state ic s))"
  proof (cases "terminal s")
    case True
    then show ?thesis
      using base un st k async_wait_ok enter_complete_ok enter_init_error_ok
      by (auto simp: idm_enter_state_def terminal_def)
  next
    case False
    have "conn_ok k p (set_state ic s)"
      using ok src base un False by (simp add: conn_ok_def) (simp add: set_state_def)
    then show ?thesis using False s st by (intro enter_state_ok) auto
  qed
  with s show ?thesis by (simp add: update_state_set_state)
qed

lemma update_state_state [simp]:
  "s \<notin> {CS_S0_UNDEFINED, CS_MAX_STATE} \<Longrightarrow> ic_state (idm_update_state env ic s) = s"
  by (cases s) (auto simp: update_state_set_state set_state_def idm_enter_state_def idm_ini_conn_finish_def
    idm_tgt_conn_finish_def idm_notify_client_def idm_enter_logged_in_def idm_ffp_enable_def
    idm_enter_enable_dm_def Let_def split: prod.splits)

section \<open>The handlers\<close>

text \<open>The state changes of the connection diagram (the \<open>T\<close> and \<open>M\<close> labels of the source).\<close>

definition conn_trans :: "(idm_conn_state \<times> idm_conn_state) set" where
  "conn_trans =
     {(CS_S1_FREE, CS_S2_XPT_WAIT), (CS_S1_FREE, CS_S3_XPT_UP), (CS_S1_FREE, CS_S9_INIT_ERROR),
      (CS_S2_XPT_WAIT, CS_S4_IN_LOGIN), (CS_S2_XPT_WAIT, CS_S9_INIT_ERROR),
      (CS_S3_XPT_UP, CS_S4_IN_LOGIN), (CS_S3_XPT_UP, CS_S9_INIT_ERROR), (CS_S3_XPT_UP, CS_S9A_REJECTED),
      (CS_S4_IN_LOGIN, CS_S5_LOGGED_IN), (CS_S4_IN_LOGIN, CS_S12_ENABLE_DM),
      (CS_S4_IN_LOGIN, CS_S9_INIT_ERROR), (CS_S4_IN_LOGIN, CS_S9B_WAIT_SND_DONE),
      (CS_S4_IN_LOGIN, CS_S11_COMPLETE),
      (CS_S5_LOGGED_IN, CS_S6_IN_LOGOUT), (CS_S5_LOGGED_IN, CS_S7_LOGOUT_REQ),
      (CS_S5_LOGGED_IN, CS_S8_CLEANUP), (CS_S5_LOGGED_IN, CS_S11_COMPLETE),
      (CS_S6_IN_LOGOUT, CS_S8_CLEANUP), (CS_S6_IN_LOGOUT, CS_S11_COMPLETE),
      (CS_S7_LOGOUT_REQ, CS_S6_IN_LOGOUT), (CS_S7_LOGOUT_REQ, CS_S8_CLEANUP),
      (CS_S7_LOGOUT_REQ, CS_S11_COMPLETE),
      (CS_S8_CLEANUP, CS_S10_IN_CLEANUP), (CS_S8_CLEANUP, CS_S11_COMPLETE),
      (CS_S9B_WAIT_SND_DONE, CS_S9_INIT_ERROR),
      (CS_S10_IN_CLEANUP, CS_S8_CLEANUP), (CS_S10_IN_CLEANUP, CS_S11_COMPLETE),
      (CS_S12_ENABLE_DM, CS_S5_LOGGED_IN), (CS_S12_ENABLE_DM, CS_S9_INIT_ERROR)}"

lemmas conn_handlers [step_defs] =
  idm_state_s1_free_def idm_state_s2_xpt_wait_def idm_state_s3_xpt_up_def idm_state_s4_in_login_def
  idm_state_s5_logged_in_def idm_state_s6_in_logout_def idm_state_s7_logout_req_def
  idm_state_s8_cleanup_def idm_state_s9_init_error_def idm_state_s9a_rejected_def
  idm_state_s9b_wait_snd_done_def idm_state_s10_in_cleanup_def idm_state_s11_complete_def
  idm_state_s12_enable_dm_def

text \<open>
  Every handler either keeps the state, or ends in one \<open>idm_update_state\<close> from a connection
  that satisfies the invariant and is out of full feature phase unless it goes to S7.
\<close>

definition ready_for :: "int \<Rightarrow> int \<Rightarrow> idm_conn_state \<Rightarrow> idm_conn \<Rightarrow> idm_conn_state \<Rightarrow> bool" where
  "ready_for k p s ic s' \<longleftrightarrow>
     conn_ok k p ic \<and> ic_state ic = s \<and> (s, s') \<in> conn_trans \<and> (ic_ffp ic \<longrightarrow> s' = CS_S7_LOGOUT_REQ) \<and>
     (s = CS_S4_IN_LOGIN \<longrightarrow> login_done s' \<longrightarrow> ic_login_info_valid ic)"

lemma conn_trans_states:
  "(s, s') \<in> conn_trans \<Longrightarrow> s' \<notin> {CS_S0_UNDEFINED, CS_S1_FREE, CS_MAX_STATE} \<and> \<not> terminal s \<and>
     (login_done s' \<longrightarrow> login_done s \<or> s = CS_S4_IN_LOGIN)"
  by (auto simp: conn_trans_def terminal_def login_done_def)

definition good :: "int \<Rightarrow> int \<Rightarrow> idm_conn_state \<Rightarrow> idm_conn \<Rightarrow> bool" where
  "good k p s ic \<longleftrightarrow> conn_ok k p ic \<and> (ic_state ic = s \<or> (s, ic_state ic) \<in> conn_trans)"

lemma good_update [simp]: "ready_for k p s ic s' \<Longrightarrow> k > 0 \<Longrightarrow> good k p s (idm_update_state env ic s')"
  using conn_trans_states [of s s'] update_state_ok [of k p ic s' env] by (auto simp: good_def ready_for_def)

lemma good_stay: "conn_ok k p ic \<Longrightarrow> ic_state ic = s \<Longrightarrow> good k p s ic"
  by (simp add: good_def)

lemma conn_ok_ffp: "conn_ok k p ic \<Longrightarrow> ic_state ic \<notin> {CS_S5_LOGGED_IN, CS_S7_LOGOUT_REQ} \<Longrightarrow> \<not> ic_ffp ic"
  by (auto simp: conn_ok_def conn_base_def)

lemma state_handlers_good:
  assumes "conn_ok k p ic" and "k > 0"
  shows "ic_state ic = CS_S1_FREE \<Longrightarrow> good k p CS_S1_FREE (idm_state_s1_free env ic ctx)"
    and "ic_state ic = CS_S2_XPT_WAIT \<Longrightarrow> good k p CS_S2_XPT_WAIT (idm_state_s2_xpt_wait env ic ctx)"
    and "ic_state ic = CS_S3_XPT_UP \<Longrightarrow> good k p CS_S3_XPT_UP (idm_state_s3_xpt_up env ic ctx)"
    and "ic_state ic = CS_S4_IN_LOGIN \<Longrightarrow> good k p CS_S4_IN_LOGIN (fst (idm_state_s4_in_login env ic ctx))"
    and "ic_state ic = CS_S5_LOGGED_IN \<Longrightarrow> good k p CS_S5_LOGGED_IN (idm_state_s5_logged_in env ic ctx)"
    and "ic_state ic = CS_S6_IN_LOGOUT \<Longrightarrow> good k p CS_S6_IN_LOGOUT (fst (idm_state_s6_in_logout env ic ctx))"
    and "ic_state ic = CS_S7_LOGOUT_REQ \<Longrightarrow> good k p CS_S7_LOGOUT_REQ (idm_state_s7_logout_req env ic ctx)"
    and "ic_state ic = CS_S8_CLEANUP \<Longrightarrow> good k p CS_S8_CLEANUP (idm_state_s8_cleanup env ic ctx)"
    and "ic_state ic = CS_S9B_WAIT_SND_DONE \<Longrightarrow>
      good k p CS_S9B_WAIT_SND_DONE (idm_state_s9b_wait_snd_done env ic ctx)"
    and "ic_state ic = CS_S10_IN_CLEANUP \<Longrightarrow> good k p CS_S10_IN_CLEANUP (idm_state_s10_in_cleanup env ic ctx)"
    and "ic_state ic = CS_S11_COMPLETE \<Longrightarrow> good k p CS_S11_COMPLETE (idm_state_s11_complete env ic ctx)"
    and "ic_state ic = CS_S12_ENABLE_DM \<Longrightarrow> good k p CS_S12_ENABLE_DM (idm_state_s12_enable_dm env ic ctx)"
  using assms conn_ok_ffp [OF assms(1)]
  by (simp_all add: conn_handlers Let_def ready_for_def conn_trans_def login_done_def good_stay conn_ok_ffp_disable
      conn_ok_restore)

lemma state_handler_good:
  assumes "conn_ok k p ic" and "k > 0"
  shows "good k p (ic_state ic) (fst (idm_conn_state_handler env ic ctx))"
  using state_handlers_good [OF assms] assms
  by (cases "ic_state ic")
    (simp_all add: idm_conn_state_handler_def good_stay idm_state_s9_init_error_def idm_state_s9a_rejected_def)

section \<open>Steps of a connection\<close>

lemma conn_rele_ok:
  assumes "conn_ok k p ic" and "k > 0"
  shows "conn_ok (k - 1) p (idm_conn_rele ic)"
  using assms by (auto simp: conn_ok_def conn_base_def idm_conn_rele_def assert_def Let_def)

lemma conn_rele_state [simp]: "ic_state (idm_conn_rele ic) = ic_state ic"
  by (simp add: idm_conn_rele_def assert_def Let_def)

lemma good_rele: "good 1 0 s ic \<Longrightarrow> good 0 0 s (idm_conn_rele ic)"
  using conn_rele_ok [of 1 0 ic] by (simp add: good_def)

lemma good_dispose: "good k p s ic \<Longrightarrow> good k p s (idm_pdu_dispose ic ctx action pdu)"
  by (cases action) (simp_all add: good_def idm_pdu_dispose_def idm_pdu_tx_protocol_error_def
    idm_pdu_rx_protocol_error_def conn_ok_complete)

lemma good_count_off: "good k 1 s ic \<Longrightarrow> good k 0 s (ic\<lparr>ic_pdu_events := ic_pdu_events ic - 1\<rparr>)"
  by (simp add: good_def conn_ok_def conn_base_def)

lemma validate_event_ok:
  assumes "idm_conn_validate_event ic ctx = (ic', ctx', action)"
  shows "ic_state ic' = ic_state ic" and "conn_ok k p ic \<Longrightarrow> conn_ok k p ic'"
  using assms
  by (auto simp: idm_conn_validate_event_def Let_def conn_ok_complete
      split: if_splits idm_pdu_event_action.splits)

lemma event_handler_good:
  assumes ok: "conn_ok 1 (if iec_pdu_event_type ctx \<noteq> CT_NONE then 1 else 0) ic"
  shows "good 0 0 (ic_state ic) (idm_conn_event_handler env ic ctx)"
proof -
  let ?p = "if iec_pdu_event_type ctx \<noteq> CT_NONE then 1 else 0 :: int"
  obtain ic1 ctx1 action where v: "idm_conn_validate_event ic ctx = (ic1, ctx1, action)"
    by (cases "idm_conn_validate_event ic ctx") auto
  obtain ic2 ctx2 where h: "idm_conn_state_handler env ic1 ctx1 = (ic2, ctx2)" by fastforce
  have "good 1 ?p (ic_state ic1) (fst (idm_conn_state_handler env ic1 ctx1))"
    by (rule state_handler_good [OF validate_event_ok(2) [OF v ok]]) simp
  then have g: "good 1 ?p (ic_state ic) ic2"
    using validate_event_ok(1) [OF v] h by simp
  show ?thesis
  proof (cases "iec_pdu_event_type ctx = CT_NONE")
    case True
    with g v h show ?thesis by (simp add: idm_conn_event_handler_def good_rele)
  next
    case False
    with g have "good 1 0 (ic_state ic) ((idm_pdu_dispose ic2 ctx2 action (iec_info ctx))
        \<lparr>ic_pdu_events := ic_pdu_events (idm_pdu_dispose ic2 ctx2 action (iec_info ctx)) - 1\<rparr>)"
      by (intro good_count_off good_dispose) simp
    with False v h show ?thesis by (simp add: idm_conn_event_handler_def good_rele Let_def)
  qed
qed

lemma run_ok:
  assumes "conn_ok 0 0 ic" and "ic_state_taskq ic = ctx # rest"
  shows "conn_ok 1 (if iec_pdu_event_type ctx \<noteq> CT_NONE then 1 else 0) (ic\<lparr>ic_state_taskq := rest\<rparr>)"
  using assms by (auto simp: conn_ok_def conn_base_def)


text \<open>
  A connection starts zeroed from its creator. Its steps: the client or the transport posts an
  event, hands over a received or a new PDU, or completes one; a timer goes off; the task queue
  runs its first event; someone outside takes or drops a reference; PDUs are (re)initialised.
  \<open>idm_refcnt_hold\<close> forbids new references once the wait for the last one has begun, and a
  reference of a queued event is not someone else's to drop.
\<close>

definition conn_init :: "idm_conn \<Rightarrow> bool" where
  "conn_init ic \<longleftrightarrow>
     ic_state ic = CS_S1_FREE \<and> ic_last_state ic = CS_S1_FREE \<and> ic_state_audit ic = idm_sm_audit_init \<and>
     ic_state_flags ic = 0 \<and> ic_state_timeout ic = 0 \<and> ic_state_taskq ic = [] \<and> ic_pdu_events ic = 0 \<and>
     \<not> ic_login_info_valid ic \<and> ic_login_cid ic = 0 \<and> ic_conn_sm_status ic = IDM_STATUS_SUCCESS \<and>
     \<not> ic_ffp ic \<and> ic_client_callback ic = CB_NULL \<and> ic_refcnt ic = idm_refcnt_init \<and>
     ic_timers ic = [] \<and> ic_next_timer ic = 1 \<and> ic_trace ic = []"

inductive conn_step :: "idm_env \<Rightarrow> idm_conn \<Rightarrow> idm_conn \<Rightarrow> bool" for env where
  post: "conn_step env ic (idm_conn_event ic e i)"
| rx: "conn_step env ic (idm_pdu_rx ic pdu)"
| tx: "conn_step env ic (idm_pdu_tx ic pdu)"
| complete: "conn_step env ic (idm_pdu_complete ic pdu st)"
| timer: "t \<in> set (ic_timers ic) \<Longrightarrow> conn_step env ic (timer_fires ic t)"
| run: "ic_state_taskq ic = ctx # rest \<Longrightarrow>
    conn_step env ic (idm_conn_event_handler env (ic\<lparr>ic_state_taskq := rest\<rparr>) ctx)"
| hold: "ir_waiting (ic_refcnt ic) = REF_NOWAIT \<Longrightarrow> conn_step env ic (idm_conn_hold ic)"
| rele: "int (length (ic_state_taskq ic)) < ir_refcnt (ic_refcnt ic) \<Longrightarrow> conn_step env ic (idm_conn_rele ic)"
| pdu: "conn_step env ic (ic\<lparr>ic_pdus := pdus\<rparr>)"

inductive_cases conn_stepE: "conn_step env ic ic'"

lemma event_locked_good:
  assumes ok: "conn_ok k p ic" and t: "t \<noteq> CT_NONE"
  shows "good k p (ic_state ic) (idm_conn_event_locked (ic\<lparr>ic_pdu_events := ic_pdu_events ic + 1\<rparr>) e i t)"
proof -
  let ?ic = "idm_conn_audit (ic\<lparr>ic_pdu_events := ic_pdu_events ic + 1\<rparr>) e i"
  have a: "conn_ok k (p + 1) ?ic" using ok by (simp add: conn_ok_def conn_base_def)
  show ?thesis
  proof (cases "terminal (ic_state ic)")
    case True
    have "conn_ok k p (idm_pdu_complete (?ic\<lparr>ic_pdu_events := ic_pdu_events ?ic - 1\<rparr>) i IDM_STATUS_SUCCESS)"
      by (rule conn_ok_complete) (use ok in \<open>simp add: conn_ok_def conn_base_def\<close>)
    with True t show ?thesis
      by (cases t) (simp_all add: good_def idm_conn_event_locked_def Let_def)
  next
    case False
    have "conn_ok k p (idm_conn_dispatch ?ic e i t)"
      using conn_ok_dispatch [OF a, of t e i] False t by simp
    with False show ?thesis
      by (simp add: good_def idm_conn_event_locked_def Let_def)
        (simp add: idm_conn_dispatch_def idm_conn_hold_def Let_def)
  qed
qed

lemma pdu_events_good:
  assumes "conn_ok k p ic"
  shows "good k p (ic_state ic) (idm_conn_tx_pdu_event ic e i)"
    and "good k p (ic_state ic) (idm_conn_rx_pdu_event ic e i)"
  using event_locked_good [OF assms]
  by (simp_all add: idm_conn_tx_pdu_event_def idm_conn_rx_pdu_event_def)

lemma good_if: "good k p s ic1 \<Longrightarrow> good k p s ic2 \<Longrightarrow> good k p s (if c then ic1 else ic2)"
  by simp

lemma parse_good:
  assumes "conn_ok k p ic"
  shows "good k p (ic_state ic) (idm_parse_login_rsp ic pdu rx)"
    and "good k p (ic_state ic) (idm_parse_logout_req ic pdu rx)"
    and "good k p (ic_state ic) (idm_parse_logout_rsp ic pdu rx)"
  unfolding idm_parse_login_rsp_def idm_parse_logout_req_def idm_parse_logout_rsp_def Let_def
  by (intro good_if pdu_events_good assms)+

lemma pdu_tx_good:
  assumes "conn_ok k p ic"
  shows "good k p (ic_state ic) (idm_pdu_tx ic pdu)"
proof -
  have "good k p (ic_state ic) (idm_pdu_tx_forward ic pdu)" using assms by (simp add: good_stay)
  then show ?thesis
    unfolding idm_pdu_tx_def idm_pdu_tx_event_def Let_def
    by (intro good_if pdu_events_good parse_good assms)
qed

lemma pdu_rx_event_good:
  assumes "conn_ok k p ic"
  shows "good k p (ic_state ic) (idm_pdu_rx_event ic pdu)"
  unfolding idm_pdu_rx_event_def Let_def
  by (intro good_if pdu_events_good parse_good good_stay assms refl)

lemma pdu_rx_good:
  assumes "conn_ok k p ic"
  shows "good k p (ic_state ic) (idm_pdu_rx ic pdu)"
proof -
  obtain ic' f where f: "idm_pdu_rx_forward_ffp ic pdu = (ic', f)" by fastforce
  then have "conn_ok k p ic'" and "ic_state ic' = ic_state ic"
    using quiet_rx_forward_ffp [of ic pdu] assms conn_ok_quiet [of ic ic'] by (auto simp: quiet_def)
  with pdu_rx_event_good [OF assms] pdu_rx_event_good [of k p ic' pdu] f show ?thesis
    by (auto simp: idm_pdu_rx_def good_stay)
qed

lemma timer_fires_good: "conn_ok k p ic \<Longrightarrow> good k p (ic_state ic) (timer_fires ic t)"
  by (cases "snd t")
    (simp_all add: good_def timer_fires_def idm_login_timeout_def idm_logout_req_timeout_def
      idm_cleanup_timeout_def Let_def conn_ok_event)

lemma conn_hold_good:
  "conn_ok k p ic \<Longrightarrow> ir_waiting (ic_refcnt ic) = REF_NOWAIT \<Longrightarrow> good k p (ic_state ic) (idm_conn_hold ic)"
  by (simp add: good_def conn_ok_def conn_base_def idm_conn_hold_def Let_def assert_def split: if_splits)

lemma conn_step_good:
  assumes ok: "conn_ok 0 0 ic" and "conn_step env ic ic'"
  shows "good 0 0 (ic_state ic) ic'"
  using assms(2)
proof cases
  case (post e i)
  then show ?thesis by (simp add: good_def conn_ok_event [OF ok])
next
  case (rx pdu)
  then show ?thesis by (simp add: pdu_rx_good [OF ok])
next
  case (tx pdu)
  then show ?thesis by (simp add: pdu_tx_good [OF ok])
next
  case (complete pdu st)
  then show ?thesis by (simp add: good_def conn_ok_complete [OF ok])
next
  case (timer t)
  then show ?thesis by (simp add: timer_fires_good [OF ok])
next
  case (run ctx rest)
  then show ?thesis using event_handler_good [OF run_ok [OF ok run(2)], of env] by simp
next
  case hold
  then show ?thesis by (simp add: conn_hold_good [OF ok])
next
  case rele
  then have "conn_ok 1 0 ic" using ok by (simp add: conn_ok_def conn_base_def)
  then show ?thesis using rele good_rele [OF good_stay] by simp
next
  case (pdu pdus)
  then show ?thesis using ok by (simp add: good_def conn_ok_def conn_base_def)
qed

interpretation idmconn: machine_refines conn_init "conn_step env" "conn_ok 0 0" ic_state
  "\<lambda>s s'. (s, s') \<in> conn_trans" for env
proof unfold_locales
  show "conn_ok 0 0 ic" if "conn_init ic" for ic
    using that by (simp add: conn_init_def conn_ok_def conn_base_def terminal_def login_done_def unrefs_def
        idm_refcnt_init_def idm_refcnt_reset_def)
  show "conn_ok 0 0 t" if "conn_ok 0 0 s" "conn_step env s t" for env s t
    using conn_step_good [OF that] by (simp add: good_def)
  show "ic_state t = ic_state s \<or> (ic_state s, ic_state t) \<in> conn_trans"
    if "conn_ok 0 0 s" "conn_step env s t" for env s t
    using conn_step_good [OF that] by (simp add: good_def)
qed

definition conn_reachable :: "idm_env \<Rightarrow> idm_conn \<Rightarrow> bool" where
  "conn_reachable env ic \<longleftrightarrow> machine.reachable conn_init (conn_step env) ic"

lemma conn_reachable_ok: "conn_reachable env ic \<Longrightarrow> conn_ok 0 0 ic"
  using idmconn.reachable_inv by (simp add: conn_reachable_def)

section \<open>Scripts\<close>

text \<open>The steps of a connection as commands, so that runs can be computed.\<close>

datatype conn_op = Op_post idm_conn_event_t addr | Op_rx addr | Op_tx addr | Op_complete addr idm_status
  | Op_fire | Op_run

definition conn_exec :: "idm_env \<Rightarrow> conn_op \<Rightarrow> idm_conn \<Rightarrow> idm_conn" where
  "conn_exec env op ic =
     (case op of
        Op_post e i \<Rightarrow> idm_conn_event ic e i
      | Op_rx pdu \<Rightarrow> idm_pdu_rx ic pdu
      | Op_tx pdu \<Rightarrow> idm_pdu_tx ic pdu
      | Op_complete pdu st \<Rightarrow> idm_pdu_complete ic pdu st
      | Op_fire \<Rightarrow> (if ic_timers ic = [] then ic else timer_fires ic (last (ic_timers ic)))
      | Op_run \<Rightarrow> (case ic_state_taskq ic of [] \<Rightarrow> ic
                 | ctx # rest \<Rightarrow> idm_conn_event_handler env (ic\<lparr>ic_state_taskq := rest\<rparr>) ctx))"

lemma conn_exec_steps: "(conn_step env)\<^sup>*\<^sup>* ic (conn_exec env op ic)"
proof (cases op)
  case Op_fire
  then show ?thesis
    by (cases "ic_timers ic") (auto simp: conn_exec_def intro!: conn_step.timer)
next
  case Op_run
  then show ?thesis
    by (cases "ic_state_taskq ic") (auto simp: conn_exec_def intro!: conn_step.run)
qed (auto simp: conn_exec_def intro: conn_step.intros)

lemma conn_script_steps: "(conn_step env)\<^sup>*\<^sup>* ic (fold (conn_exec env) ops ic)"
  by (induction ops arbitrary: ic) (auto intro: conn_exec_steps rtranclp_trans)

lemma conn_reachable_steps: "conn_reachable env ic \<Longrightarrow> (conn_step env)\<^sup>*\<^sup>* ic ic' \<Longrightarrow> conn_reachable env ic'"
  unfolding conn_reachable_def machine.reachable_def by (meson rtranclp_trans)

lemma conn_script_reachable: "conn_init ic \<Longrightarrow> conn_reachable env (fold (conn_exec env) ops ic)"
  using conn_script_steps conn_reachable_steps idmconn.reachable_init unfolding conn_reachable_def by blast

text \<open>
  A target connection whose transport and client always succeed, with a login request at
  address 1, a final login response at 2, an asynchronous message at 3 and a logout response at 4.
\<close>

definition demo_env :: idm_env where
  "demo_env = \<lparr>it_ini_conn_connect = (\<lambda>_. IDM_STATUS_SUCCESS), it_tgt_conn_connect = (\<lambda>_. IDM_STATUS_SUCCESS),
     it_ini_enable_datamover = (\<lambda>_. IDM_STATUS_SUCCESS), it_tgt_enable_datamover = (\<lambda>_. IDM_STATUS_SUCCESS),
     icb_client_notify = (\<lambda>_ _ _. IDM_STATUS_SUCCESS)\<rparr>"

definition demo_pdu :: "u8 \<Rightarrow> u8 \<Rightarrow> idm_pdu" where
  "demo_pdu opc flags = \<lparr>hdr_opcode = opc, hdr_flags = flags, hdr_cid = 0, hdr_status_class = 0, hdr_response = 0,
     hdr_async_event = 1, isp_callback = CB_CLIENT 7, isp_status = IDM_STATUS_SUCCESS\<rparr>"

definition demo_conn :: idm_conn where
  "demo_conn = \<lparr>ic_conn_type = CONN_TYPE_TGT, ic_state = CS_S1_FREE, ic_last_state = CS_S1_FREE,
     ic_state_audit = idm_sm_audit_init, ic_state_flags = 0, ic_state_timeout = 0, ic_reinstate_conn = 0,
     ic_state_taskq = [], ic_pdu_events = 0, ic_login_info_valid = False, ic_rdma_extensions = False,
     ic_login_cid = 0, ic_conn_sm_status = IDM_STATUS_SUCCESS, ic_ffp = False, ic_client_callback = CB_NULL,
     ic_refcnt = idm_refcnt_init,
     ic_pdus = (\<lambda>a. if a = 1 then demo_pdu ISCSI_OP_LOGIN_CMD 0 else if a = 2 then demo_pdu ISCSI_OP_LOGIN_RSP 0x83
                     else if a = 3 then demo_pdu ISCSI_OP_ASYNC_EVENT 0 else demo_pdu ISCSI_OP_LOGOUT_RSP 0),
     ic_timers = [], ic_next_timer = 1, ic_trace = []\<rparr>"

definition demo_login :: "conn_op list" where
  "demo_login = [Op_post CE_CONNECT_ACCEPT 0, Op_run, Op_rx 1, Op_run, Op_tx 2, Op_run]"

definition demo_logged_in :: idm_conn where
  "demo_logged_in = fold (conn_exec demo_env) demo_login demo_conn"

lemma demo_init: "conn_init demo_conn"
  by (simp add: conn_init_def demo_conn_def)

lemma demo_reachable: "conn_reachable demo_env demo_logged_in"
  unfolding demo_logged_in_def by (rule conn_script_reachable [OF demo_init])

lemma demo_state:
  "ic_state demo_logged_in = CS_S5_LOGGED_IN" "ic_ffp demo_logged_in" "ic_state_taskq demo_logged_in = []"
  by code_simp+

section \<open>Properties\<close>

text \<open>
  C7. The connection is in full feature phase (\<open>ic_ffp\<close>, in which SCSI PDUs bypass the state
  machine) only while it is logged in (S5) or has been asked to log out (S7), and only after a
  login response reported success.
\<close>

theorem idm_ffp_only_logged_in:
  assumes "conn_reachable env ic" and "ic_ffp ic"
  shows "ic_state ic \<in> {CS_S5_LOGGED_IN, CS_S7_LOGOUT_REQ} \<and> ic_login_info_valid ic"
  using conn_reachable_ok [OF assms(1)] assms(2)
  by (auto simp: conn_ok_def conn_base_def login_done_def)

theorem idm_ffp_only_logged_in_witness:
  "ic_ffp demo_logged_in \<and> ic_state demo_logged_in \<in> {CS_S5_LOGGED_IN, CS_S7_LOGOUT_REQ} \<and>
   ic_login_info_valid demo_logged_in"
  using idm_ffp_only_logged_in [OF demo_reachable] demo_state by simp

text \<open>In a terminal state nothing but the queue and outside holders touches the count.\<close>

lemma terminal_event_refcnt: "terminal (ic_state ic) \<Longrightarrow> ic_refcnt (idm_conn_event ic e i) = ic_refcnt ic"
  by (simp add: idm_conn_event_def Let_def)

lemma terminal_complete_refcnt: "terminal (ic_state ic) \<Longrightarrow> ic_refcnt (idm_pdu_complete ic pdu st) = ic_refcnt ic"
  by (simp add: idm_pdu_complete_def idm_state_s9b_wait_snd_done_cb_def idm_state_s6_in_logout_success_snd_done_def
      idm_state_s6_in_logout_fail_snd_done_def terminal_event_refcnt split: idm_pdu_cb.split)

lemma terminal_pdu_event_refcnt:
  assumes "terminal (ic_state ic)"
  shows "ic_refcnt (idm_conn_tx_pdu_event ic e i) = ic_refcnt ic"
    and "ic_refcnt (idm_conn_rx_pdu_event ic e i) = ic_refcnt ic"
  using assms
  by (simp_all add: idm_conn_tx_pdu_event_def idm_conn_rx_pdu_event_def idm_conn_event_locked_def Let_def
      terminal_complete_refcnt)

lemma refcnt_if: "ic_refcnt ic1 = r \<Longrightarrow> ic_refcnt ic2 = r \<Longrightarrow> ic_refcnt (if c then ic1 else ic2) = r"
  by simp

lemma terminal_rx_tx_refcnt:
  assumes t: "terminal (ic_state ic)" and f: "\<not> ic_ffp ic"
  shows "ic_refcnt (idm_pdu_tx ic pdu) = ic_refcnt ic" and "ic_refcnt (idm_pdu_rx ic pdu) = ic_refcnt ic"
proof -
  have p: "ic_refcnt (idm_parse_login_rsp ic pdu rx) = ic_refcnt ic"
    "ic_refcnt (idm_parse_logout_req ic pdu rx) = ic_refcnt ic"
    "ic_refcnt (idm_parse_logout_rsp ic pdu rx) = ic_refcnt ic" for rx
    unfolding idm_parse_login_rsp_def idm_parse_logout_req_def idm_parse_logout_rsp_def Let_def
    by (intro refcnt_if terminal_pdu_event_refcnt t)+
  have "ic_refcnt (idm_pdu_tx_event ic pdu) = ic_refcnt ic" "ic_refcnt (idm_pdu_rx_event ic pdu) = ic_refcnt ic"
    unfolding idm_pdu_tx_event_def idm_pdu_rx_event_def Let_def
    by (intro refcnt_if terminal_pdu_event_refcnt p t refl)+
  with f show "ic_refcnt (idm_pdu_tx ic pdu) = ic_refcnt ic" and "ic_refcnt (idm_pdu_rx ic pdu) = ic_refcnt ic"
    by (simp_all add: idm_pdu_tx_def idm_pdu_rx_def)
qed

lemma conn_ok_unrefs:
  assumes "conn_ok 0 p ic" and "unrefs ic = 1"
  shows "terminal (ic_state ic)" and "ir_refcnt (ic_refcnt ic) = 0" and "ic_state_taskq ic = []"
    and "ir_waiting (ic_refcnt ic) = REF_WAIT_ASYNC"
proof -
  show t: "terminal (ic_state ic)"
    using assms by (cases "terminal (ic_state ic)") (simp_all add: conn_ok_def)
  show r: "ir_refcnt (ic_refcnt ic) = 0"
    using assms by (cases "ir_refcnt (ic_refcnt ic) = 0") (simp_all add: conn_ok_def)
  show "ir_waiting (ic_refcnt ic) = REF_WAIT_ASYNC" using assms(1) t by (simp add: conn_ok_def)
  have "int (length (ic_state_taskq ic)) \<le> 0" using assms(1) r by (simp add: conn_ok_def conn_base_def)
  then show "ic_state_taskq ic = []" by simp
qed

lemma unref_step:
  assumes ok: "conn_ok 0 0 ic" and u: "unrefs ic = 1" and st: "conn_step env ic ic'"
  shows "conn_ok 0 0 ic' \<and> unrefs ic' = 1"
proof -
  note idle = conn_ok_unrefs [OF ok u]
  then have t: "terminal (ic_state ic)" "ir_refcnt (ic_refcnt ic) = 0" by simp_all
  have f: "\<not> ic_ffp ic" using ok t by (auto simp: conn_ok_def conn_base_def terminal_def)
  have g: "good 0 0 (ic_state ic) ic'" using ok st by (rule conn_step_good)
  then have s: "ic_state ic' = ic_state ic" using t conn_trans_states by (auto simp: good_def)
  from st have "ic_refcnt ic' = ic_refcnt ic"
  proof cases
    case (timer x)
    then show ?thesis
      using t by (cases "snd x") (simp_all add: timer_fires_def idm_login_timeout_def idm_logout_req_timeout_def
          idm_cleanup_timeout_def terminal_event_refcnt Let_def)
  qed (use t idle(3,4) f in \<open>simp_all add: terminal_event_refcnt terminal_complete_refcnt terminal_rx_tx_refcnt\<close>)
  with g s t show ?thesis by (simp add: good_def conn_ok_def)
qed

text \<open>
  C6. References and destruction. Every queued event holds a reference. The task that
  destroys the connection is dispatched at most once, and only in a terminal state, with no
  event left in the queue and no reference left; from then on nothing that happens to the
  connection queues an event, so the freed connection is never touched by its own state machine.
\<close>

theorem idm_unref_once:
  assumes "conn_reachable env ic" and "(conn_step env)\<^sup>*\<^sup>* ic ic'"
  shows "int (length (ic_state_taskq ic)) \<le> ir_refcnt (ic_refcnt ic) \<and> unrefs ic \<le> 1 \<and>
    (unrefs ic = 1 \<longrightarrow> terminal (ic_state ic) \<and> ic_state_taskq ic = [] \<and> ir_refcnt (ic_refcnt ic) = 0 \<and>
       ic_state_taskq ic' = [] \<and> unrefs ic' = 1)"
proof -
  have ok: "conn_ok 0 0 ic" using assms(1) by (rule conn_reachable_ok)
  have later: "conn_ok 0 0 ic' \<and> unrefs ic' = 1" if "unrefs ic = 1"
    using assms(2) by (induction rule: rtranclp_induct) (use ok that unref_step in blast)+
  have "int (length (ic_state_taskq ic)) \<le> ir_refcnt (ic_refcnt ic)"
    using ok by (simp add: conn_ok_def conn_base_def)
  moreover have "unrefs ic \<le> 1" using ok by (simp add: conn_ok_def)
  ultimately show ?thesis using later conn_ok_unrefs [OF ok] conn_ok_unrefs(3) [of 0 ic'] by blast
qed

theorem idm_unref_once_witness:
  "unrefs (fold (conn_exec demo_env) [Op_post CE_LOGOUT_SESSION_SUCCESS 0, Op_run] demo_logged_in) = 1 \<and>
   ic_state_taskq (fold (conn_exec demo_env)
     [Op_post CE_LOGOUT_SESSION_SUCCESS 0, Op_run, Op_post CE_TRANSPORT_FAIL 0, Op_rx 3] demo_logged_in) = []"
proof -
  let ?ic = "fold (conn_exec demo_env) [Op_post CE_LOGOUT_SESSION_SUCCESS 0, Op_run] demo_logged_in"
  have r: "conn_reachable demo_env ?ic"
    by (rule conn_reachable_steps [OF demo_reachable conn_script_steps])
  have u: "unrefs ?ic = 1" by code_simp
  from idm_unref_once [OF r conn_script_steps [of _ _ "[Op_post CE_TRANSPORT_FAIL 0, Op_rx 3]"]] u
  show ?thesis by simp
qed



text \<open>What validation accepts: the direction fits the role, and the state allows the opcode.\<close>

definition pdu_direction_ok :: "idm_conn \<Rightarrow> idm_conn_event_ctx \<Rightarrow> u8 \<Rightarrow> bool" where
  "pdu_direction_ok ic ctx op \<longleftrightarrow>
     (if op \<in> {ISCSI_OP_NOOP_OUT, ISCSI_OP_SCSI_CMD, ISCSI_OP_SCSI_TASK_MGT_MSG, ISCSI_OP_LOGIN_CMD,
         ISCSI_OP_TEXT_CMD, ISCSI_OP_SCSI_DATA, ISCSI_OP_LOGOUT_CMD, ISCSI_OP_SNACK_CMD}
      then (IDM_CONN_ISTGT ic \<longleftrightarrow> iec_pdu_event_type ctx = CT_RX_PDU)
      else op \<in> {ISCSI_OP_NOOP_IN, ISCSI_OP_SCSI_RSP, ISCSI_OP_SCSI_TASK_MGT_RSP, ISCSI_OP_LOGIN_RSP,
         ISCSI_OP_TEXT_RSP, ISCSI_OP_SCSI_DATA_RSP, ISCSI_OP_LOGOUT_RSP, ISCSI_OP_RTT_RSP,
         ISCSI_OP_ASYNC_EVENT, ISCSI_OP_REJECT_MSG} \<and>
         (IDM_CONN_ISINI ic \<longleftrightarrow> iec_pdu_event_type ctx = CT_RX_PDU))"

definition pdu_state_ok :: "idm_conn_state \<Rightarrow> u8 \<Rightarrow> bool" where
  "pdu_state_ok s op \<longleftrightarrow>
     (if op \<in> {ISCSI_OP_LOGIN_CMD, ISCSI_OP_LOGIN_RSP} then s \<in> {CS_S3_XPT_UP, CS_S4_IN_LOGIN}
      else s \<in> {CS_S5_LOGGED_IN, CS_S6_IN_LOGOUT, CS_S7_LOGOUT_REQ} \<or>
        (s = CS_S4_IN_LOGIN \<and> op \<in> {ISCSI_OP_NOOP_OUT, ISCSI_OP_NOOP_IN}))"

lemma validate_groups:
  "validate_login ic ctx = (if ic_state ic \<in> {CS_S3_XPT_UP, CS_S4_IN_LOGIN} then CA_FORWARD else protocol_error ctx)"
  "validate_logout ic ctx =
     (if ic_state ic \<in> {CS_S5_LOGGED_IN, CS_S6_IN_LOGOUT, CS_S7_LOGOUT_REQ} then CA_FORWARD else protocol_error ctx)"
  "validate_scsi ic ctx =
     (if ic_state ic \<in> {CS_S5_LOGGED_IN, CS_S6_IN_LOGOUT, CS_S7_LOGOUT_REQ} then CA_FORWARD else protocol_error ctx)"
  "validate_noop ic ctx =
     (if ic_state ic \<in> {CS_S4_IN_LOGIN, CS_S5_LOGGED_IN, CS_S6_IN_LOGOUT, CS_S7_LOGOUT_REQ} then CA_FORWARD
      else protocol_error ctx)"
  by (cases "ic_state ic"; simp add: validate_login_def validate_logout_def validate_scsi_def validate_noop_def)+

lemma validate_role:
  assumes "iec_pdu_event_type ctx \<noteq> CT_NONE"
  shows "validate_pdu_role ic ctx pdu =
    (if pdu_direction_ok ic ctx (opcode ic pdu) then None else Some (protocol_error ctx))"
proof -
  have t: "iec_pdu_event_type ctx = CT_RX_PDU \<or> iec_pdu_event_type ctx = CT_TX_PDU"
    using assms by (cases "iec_pdu_event_type ctx") auto
  have r: "IDM_CONN_ISINI ic \<or> IDM_CONN_ISTGT ic" by (cases "ic_conn_type ic") auto
  from t r show ?thesis
    unfolding validate_pdu_role_def pdu_direction_ok_def protocol_error_def Let_def
    by (elim disjE) simp_all
qed

text \<open>
  C12. PDU validation. The result is never \<open>CA_DROP\<close>; a PDU is passed on exactly when its
  opcode fits the role and the direction and the state allows it, and is a protocol error
  otherwise. In the clean-up states S8 and S10 every PDU is a protocol error.
\<close>

theorem idm_validate_pdu_correct:
  assumes "iec_pdu_event_type ctx \<noteq> CT_NONE"
  shows "idm_conn_sm_validate_pdu ic ctx pdu =
    (if pdu_direction_ok ic ctx (opcode ic pdu) \<and> pdu_state_ok (ic_state ic) (opcode ic pdu) then CA_FORWARD
     else if iec_pdu_event_type ctx = CT_TX_PDU then CA_TX_PROTOCOL_ERROR else CA_RX_PROTOCOL_ERROR)"
proof (cases "pdu_direction_ok ic ctx (opcode ic pdu)")
  case False
  with validate_role [OF assms] show ?thesis by (simp add: idm_conn_sm_validate_pdu_def protocol_error_def)
next
  case True
  then have "opcode ic pdu \<in> {ISCSI_OP_NOOP_OUT, ISCSI_OP_SCSI_CMD, ISCSI_OP_SCSI_TASK_MGT_MSG, ISCSI_OP_LOGIN_CMD,
         ISCSI_OP_TEXT_CMD, ISCSI_OP_SCSI_DATA, ISCSI_OP_LOGOUT_CMD, ISCSI_OP_SNACK_CMD, ISCSI_OP_NOOP_IN,
         ISCSI_OP_SCSI_RSP, ISCSI_OP_SCSI_TASK_MGT_RSP, ISCSI_OP_LOGIN_RSP, ISCSI_OP_TEXT_RSP, ISCSI_OP_SCSI_DATA_RSP, ISCSI_OP_LOGOUT_RSP, ISCSI_OP_RTT_RSP,
         ISCSI_OP_ASYNC_EVENT, ISCSI_OP_REJECT_MSG}"
    unfolding pdu_direction_ok_def by (simp split: if_splits) blast
  with True validate_role [OF assms, of ic pdu] show ?thesis
    unfolding idm_conn_sm_validate_pdu_def validate_groups pdu_state_ok_def protocol_error_def Let_def
    by (elim insertE emptyE) simp_all
qed

theorem idm_validate_pdu_correct_witness:
  "idm_conn_sm_validate_pdu demo_conn
     \<lparr>iec_event = CE_LOGIN_RCV, iec_info = 1, iec_pdu_event_type = CT_RX_PDU, iec_pdu_forwarded = False\<rparr> 1
   = CA_RX_PROTOCOL_ERROR"
  using idm_validate_pdu_correct [of "\<lparr>iec_event = CE_LOGIN_RCV, iec_info = 1, iec_pdu_event_type = CT_RX_PDU,
      iec_pdu_forwarded = False\<rparr>" demo_conn 1]
  by (simp add: demo_conn_def demo_pdu_def IDM_PDU_OPCODE_def pdu_state_ok_def)

end
