(* ===== verification/Idm_Conn_Runs.thy ===== *)
theory Idm_Conn_Runs
  imports Idm_Conn_Inv
begin

text \<open>
  Whole exchanges of a connection: PDUs stay in order behind queued PDU events, a failed
  transport is cleaned up, and a logout response is completed to the client before the
  connection is given up.
\<close>

section \<open>Order of PDUs\<close>

definition queued :: "idm_conn \<Rightarrow> addr \<Rightarrow> idm_pdu_event_type \<Rightarrow> idm_conn \<Rightarrow> bool" where
  "queued ic pdu t ic' \<longleftrightarrow>
     (\<exists>e. ic_state_taskq ic' = ic_state_taskq ic @
        [\<lparr>iec_event = e, iec_info = pdu, iec_pdu_event_type = t, iec_pdu_forwarded = False\<rparr>]) \<and>
     ic_trace ic' = ic_trace ic"

lemma queued_if: "queued ic pdu t ic1 \<Longrightarrow> queued ic pdu t ic2 \<Longrightarrow> queued ic pdu t (if c then ic1 else ic2)"
  by simp

lemma audit_trace [simp]: "ic_trace (idm_conn_audit ic e i) = ic_trace ic"
  by (simp add: idm_conn_audit_def)

lemma pdu_event_queued:
  assumes "\<not> terminal (ic_state ic)" and "ir_waiting (ic_refcnt ic) = REF_NOWAIT"
  shows "queued ic pdu CT_TX_PDU (idm_conn_tx_pdu_event ic e pdu)"
    and "queued ic pdu CT_RX_PDU (idm_conn_rx_pdu_event ic e pdu)"
  using assms
  by (simp_all add: queued_def idm_conn_tx_pdu_event_def idm_conn_rx_pdu_event_def idm_conn_event_locked_def
      idm_conn_dispatch_def idm_conn_hold_def assert_def Let_def)

lemma tx_event_queued:
  assumes "\<not> terminal (ic_state ic)" and "ir_waiting (ic_refcnt ic) = REF_NOWAIT"
  shows "queued ic pdu CT_TX_PDU (idm_pdu_tx_event ic pdu)"
  unfolding idm_pdu_tx_event_def idm_parse_login_rsp_def idm_parse_logout_req_def idm_parse_logout_rsp_def
    Let_def if_False
  by (intro queued_if pdu_event_queued assms)

text \<open>The opcodes that the slow receive path turns into an event.\<close>

definition rx_handled :: "u8 \<Rightarrow> bool" where
  "rx_handled op \<longleftrightarrow> op \<in> {ISCSI_OP_LOGIN_CMD, ISCSI_OP_LOGIN_RSP, ISCSI_OP_LOGOUT_CMD, ISCSI_OP_LOGOUT_RSP,
     ISCSI_OP_ASYNC_EVENT, ISCSI_OP_SCSI_CMD, ISCSI_OP_SCSI_DATA, ISCSI_OP_SCSI_TASK_MGT_MSG, ISCSI_OP_NOOP_OUT,
     ISCSI_OP_TEXT_CMD, ISCSI_OP_SCSI_DATA_RSP, ISCSI_OP_RTT_RSP, ISCSI_OP_SNACK_CMD, ISCSI_OP_NOOP_IN,
     ISCSI_OP_TEXT_RSP, ISCSI_OP_REJECT_MSG, ISCSI_OP_SCSI_TASK_MGT_RSP}"

lemma rx_event_queued:
  assumes "\<not> terminal (ic_state ic)" and "ir_waiting (ic_refcnt ic) = REF_NOWAIT"
  shows "if rx_handled (opcode ic pdu) then queued ic pdu CT_RX_PDU (idm_pdu_rx_event ic pdu)
    else idm_pdu_rx_event ic pdu = ic"
proof -
  have p: "queued ic pdu CT_RX_PDU (idm_parse_login_rsp ic pdu True)"
    "queued ic pdu CT_RX_PDU (idm_parse_logout_req ic pdu True)"
    "queued ic pdu CT_RX_PDU (idm_parse_logout_rsp ic pdu True)"
    unfolding idm_parse_login_rsp_def idm_parse_logout_req_def idm_parse_logout_rsp_def Let_def if_True
    by (intro queued_if pdu_event_queued assms)+
  show ?thesis
  proof (cases "rx_handled (opcode ic pdu)")
    case True
    then show ?thesis
      using p pdu_event_queued [OF assms]
      unfolding rx_handled_def idm_pdu_rx_event_def Let_def by (elim insertE emptyE) simp_all
  next
    case False
    then show ?thesis by (simp add: rx_handled_def idm_pdu_rx_event_def)
  qed
qed

text \<open>
  C13. Order of PDUs. As long as the queue holds the event of an earlier PDU, a PDU that the
  client sends is not transmitted past it, even in full feature phase: it is queued behind, and
  nothing else happens. The same holds for every received PDU with an opcode the receive path
  knows; any other one (\<open>ISCSI_OP_SCSI_RSP\<close> among them) is dropped without a trace.
\<close>

theorem idm_pdus_in_order:
  assumes "conn_reachable env ic" and "\<not> terminal (ic_state ic)"
    and "c \<in> set (ic_state_taskq ic)" and "iec_pdu_event_type c \<noteq> CT_NONE"
  shows "queued ic pdu CT_TX_PDU (idm_pdu_tx ic pdu) \<and>
    (if rx_handled (opcode ic pdu) then queued ic pdu CT_RX_PDU (idm_pdu_rx ic pdu) else idm_pdu_rx ic pdu = ic)"
proof -
  have ok: "conn_ok 0 0 ic" using assms(1) by (rule conn_reachable_ok)
  then have w: "ir_waiting (ic_refcnt ic) = REF_NOWAIT" using assms(2) by (simp add: conn_ok_def)
  have "pdu_ctxs (ic_state_taskq ic) > 0"
    using assms(3,4) by (auto simp: pdu_ctxs_def length_greater_0_conv filter_empty_conv simp flip: neq0_conv)
  then have "ic_pdu_events ic \<noteq> 0" using ok by (simp add: conn_ok_def conn_base_def)
  with tx_event_queued [OF assms(2) w, of pdu] rx_event_queued [OF assms(2) w, of pdu] show ?thesis
    by (simp add: idm_pdu_tx_def idm_pdu_rx_def)
qed

theorem idm_pdus_in_order_witness:
  "queued (conn_exec demo_env (Op_tx 3) demo_logged_in) 4 CT_TX_PDU
     (idm_pdu_tx (conn_exec demo_env (Op_tx 3) demo_logged_in) 4)"
proof -
  let ?ic = "conn_exec demo_env (Op_tx 3) demo_logged_in"
  have r: "conn_reachable demo_env ?ic" by (rule conn_reachable_steps [OF demo_reachable conn_exec_steps])
  have q: "ic_state ?ic = CS_S5_LOGGED_IN" "map iec_pdu_event_type (ic_state_taskq ?ic) = [CT_TX_PDU]"
    by code_simp+
  then obtain c where "ic_state_taskq ?ic = [c]" "iec_pdu_event_type c = CT_TX_PDU" by (cases "ic_state_taskq ?ic") auto
  with idm_pdus_in_order [OF r, of c 4] q(1) show ?thesis by (simp add: terminal_def)
qed

section \<open>Losing the transport\<close>

text \<open>The effect of the operations as equations, so that a run is computed step by step.\<close>

lemma act_trace [simp]: "ic_trace (act ic a) = ic_trace ic @ [a]"
  by (simp add: act_def)

lemma act_timers [simp]: "ic_timers (act ic a) = ic_timers ic" "ic_pdus (act ic a) = ic_pdus ic"
  "ic_client_callback (act ic a) = ic_client_callback ic"
  by (simp_all add: act_def)

lemma notify_eq [simp]: "notify env ic cn d = act ic (A_NOTIFY cn d)"
  by (simp add: idm_notify_client_def Let_def)



lemma rele_fields [simp]:
  "ic_ffp (idm_conn_rele ic) = ic_ffp ic"
  "ic_state_taskq (idm_conn_rele ic) = ic_state_taskq ic"
  "ic_timers (idm_conn_rele ic) = ic_timers ic"
  "ic_pdus (idm_conn_rele ic) = ic_pdus ic"
  "ic_client_callback (idm_conn_rele ic) = ic_client_callback ic"
  "ic_conn_type (idm_conn_rele ic) = ic_conn_type ic"
  "ic_refcnt (idm_conn_rele ic) = (ic_refcnt ic)\<lparr>ir_refcnt := ir_refcnt (ic_refcnt ic) - 1\<rparr>"
  by (simp_all add: idm_conn_rele_def assert_def Let_def)


lemma set_state_fields [simp]:
  "ic_state (set_state ic s) = s" "ic_last_state (set_state ic s) = ic_state ic"
  "ic_ffp (set_state ic s) = ic_ffp ic" "ic_state_taskq (set_state ic s) = ic_state_taskq ic"
  "ic_refcnt (set_state ic s) = ic_refcnt ic" "ic_trace (set_state ic s) = ic_trace ic @ [A_CV_SIGNAL]"
  "ic_timers (set_state ic s) = ic_timers ic" "ic_conn_type (set_state ic s) = ic_conn_type ic"
  "ic_client_callback (set_state ic s) = ic_client_callback ic"
  by (simp_all add: set_state_def)


lemma timeout_fields [simp]:
  "ic_timers (timeout ic t) = ic_timers ic @ [(ic_next_timer ic, t)]" "ic_trace (timeout ic t) = ic_trace ic"
  by (simp_all add: timeout_def)

lemma ffp_disable_eq [simp]:
  "idm_ffp_disable env ic d = act (ic\<lparr>ic_ffp := False\<rparr>) (A_NOTIFY CN_FFP_DISABLED (ffp_disable_data d))"
  by (simp add: idm_ffp_disable_def)

lemma async_wait_fields [simp]:
  "ic_state_taskq (idm_refcnt_async_wait_ref ic cb) = ic_state_taskq ic"
  "ic_client_callback (idm_refcnt_async_wait_ref ic cb) = ic_client_callback ic"
  "ic_refcnt (idm_refcnt_async_wait_ref ic cb) = (ic_refcnt ic)\<lparr>ir_waiting := REF_WAIT_ASYNC, ir_cb := cb\<rparr>"
  by (simp_all add: idm_refcnt_async_wait_ref_def Let_def)







section \<open>Logging out\<close>



lemma audit_fields [simp]:
  "ic_pdus (idm_conn_audit ic e i) = ic_pdus ic"
  "ic_client_callback (idm_conn_audit ic e i) = ic_client_callback ic"
  by (simp_all add: idm_conn_audit_def)

lemma pdu_set_fields [simp]:
  "ic_trace (pdu_set_callback ic pdu cb) = ic_trace ic" "ic_trace (pdu_set_status ic pdu st) = ic_trace ic"
  "ic_client_callback (pdu_set_callback ic pdu cb) = ic_client_callback ic"
  "ic_client_callback (pdu_set_status ic pdu st) = ic_client_callback ic"
  "ic_pdus (pdu_set_callback ic pdu cb) = (ic_pdus ic)(pdu := (ic_pdus ic pdu)\<lparr>isp_callback := cb\<rparr>)"
  "ic_pdus (pdu_set_status ic pdu st) = (ic_pdus ic)(pdu := (ic_pdus ic pdu)\<lparr>isp_status := st\<rparr>)"
  by (simp_all add: pdu_set_callback_def pdu_set_status_def)





section \<open>Two gaps\<close>



text \<open>
  C26. Connection reinstatement is not implemented by any handler: whenever
  \<open>idm_conn_reinstate_event\<close> accepts a target connection that is not yet finished, handling the
  event it posts fails the \<open>ASSERT(0)\<close> of the handler's default case and changes no state
  (S9B, which ignores every event, apart).
\<close>

theorem idm_reinstate_unhandled:
  assumes "idm_conn_reinstate_event old new old_addr new_addr = (IDM_STATUS_SUCCESS, old', new')"
    and "\<not> terminal (ic_state old)" and "ic_state old \<notin> {CS_S9B_WAIT_SND_DONE, CS_MAX_STATE}"
    and "ctx = last (ic_state_taskq old')"
  shows "iec_event ctx = CE_CONN_REINSTATE \<and> ic_reinstate_conn new' = old_addr \<and>
    idm_conn_state_handler env old' ctx = (act old' A_ASSERT, ctx)"
proof -
  have o: "old' = idm_conn_event old CE_CONN_REINSTATE new_addr" and n: "new' = new\<lparr>ic_reinstate_conn := old_addr\<rparr>"
    and s: "ic_state old \<notin> {CS_S1_FREE, CS_S2_XPT_WAIT, CS_S3_XPT_UP, CS_S4_IN_LOGIN, CS_S0_UNDEFINED}"
    using assms(1) by (cases "ic_conn_type old"; auto simp: idm_conn_reinstate_event_def idm_conn_event_is_locked
        split: if_splits)+
  have e: "iec_event ctx = CE_CONN_REINSTATE"
    using assms(2,4) by (simp add: o idm_conn_event_def idm_conn_dispatch_def Let_def)
  have "ic_state old' = ic_state old" by (simp add: o)
  with e n s assms(2,3) show ?thesis
    by (cases "ic_state old") (simp_all add: idm_conn_state_handler_def conn_handlers terminal_def Let_def)
qed

theorem idm_reinstate_unhandled_witness:
  "\<exists>old' new'. idm_conn_reinstate_event demo_logged_in demo_conn 1 2 = (IDM_STATUS_SUCCESS, old', new') \<and>
     fst (idm_conn_state_handler demo_env old' (last (ic_state_taskq old'))) = act old' A_ASSERT"
proof -
  have "ic_conn_type demo_logged_in = CONN_TYPE_TGT" by code_simp
  then have "\<exists>old' new'. idm_conn_reinstate_event demo_logged_in demo_conn 1 2 = (IDM_STATUS_SUCCESS, old', new')"
    using demo_state(1) by (simp add: idm_conn_reinstate_event_def)
  then obtain old' new' where
    r: "idm_conn_reinstate_event demo_logged_in demo_conn 1 2 = (IDM_STATUS_SUCCESS, old', new')" by blast
  from idm_reinstate_unhandled [OF r _ _ refl, of demo_env] demo_state(1) r show ?thesis
    by (auto simp: terminal_def)
qed

end
