(* ===== verification/Spec2Isabelle.thy ===== *)
theory Spec2Isabelle
  imports SpaceMap SpaceReftree Idm_Conn_Runs
begin

text \<open>
  Root of the development (skeleton).
\<close>

end
